theory Spec2Isabelle
  imports Main
begin

section \<open>The text encoding task of poly\_nlp\<close>

text \<open>
  A shallow embedding of \<^verbatim>\<open>poly_nlp/tasks/preprocessing/encode_text/encode_text_task.py\<close>:
  the class \<^verbatim>\<open>TransformedDict\<close> and the three methods of \<^verbatim>\<open>EncodeTextTask\<close>
  (\<^verbatim>\<open>tokenize\<close>, \<^verbatim>\<open>map_vocab\<close>, \<^verbatim>\<open>run\<close>).

  Python dictionaries keep insertion order and the merge of the shard maps depends on it, so a
  dictionary is an association list with distinct keys. Every exception the module can raise
  is a value of \<open>error\<close>; a function that may raise returns \<open>error + 'a\<close>. What the
  module does besides returning (dispatching a stage, creating an array file, printing a
  truncation warning) is an \<open>event\<close>; an effectful function returns the list of its events,
  in order, next to its result.

  The arrays are NumPy's. Two behaviours of the library are part of the model, as its 1.x
  releases have them: element assignment converts a Python integer to the array's dtype as C
  does, keeping the low bits; and \<^verbatim>\<open>np.memmap\<close> maps its file with \<^verbatim>\<open>mmap\<close>, which
  refuses a file of zero bytes. They are the library's, not the module's, and later releases
  differ (NumPy 2 raises OverflowError for an integer out of the dtype's range; NumPy 2.2
  accepts a map of zero bytes): a theorem that rests on one of them says so in its text.
  Tokens are strings of bytes, and \<^verbatim>\<open>str.lower\<close> is modelled on the ASCII letters.
\<close>

subsection \<open>Exceptions and dictionaries\<close>

datatype error = KeyError | IndexError | ValueError | NotImplementedError

text \<open>\<^verbatim>\<open>d[k] = v\<close>: an existing key keeps its place, a new key goes to the end.\<close>

fun dict_set :: "'k \<Rightarrow> 'v \<Rightarrow> ('k \<times> 'v) list \<Rightarrow> ('k \<times> 'v) list" where
  "dict_set k v [] = [(k, v)]"
| "dict_set k v ((k', v') # ps) =
     (if k' = k then (k, v) # ps else (k', v') # dict_set k v ps)"

text \<open>\<^verbatim>\<open>d.update(items)\<close>, also \<^verbatim>\<open>{**d, **items}\<close>: the items are stored one by one, in their order.\<close>

definition dict_update :: "('k \<times> 'v) list \<Rightarrow> ('k \<times> 'v) list \<Rightarrow> ('k \<times> 'v) list" where
  "dict_update d items = fold (\<lambda>(k, v). dict_set k v) items d"

text \<open>\<^verbatim>\<open>dict(items)\<close> of a list of pairs.\<close>

definition dict_of :: "('k \<times> 'v) list \<Rightarrow> ('k \<times> 'v) list" where
  "dict_of items = dict_update [] items"

text \<open>\<^verbatim>\<open>d[k]\<close>: a missing key raises KeyError.\<close>

definition dict_get :: "('k \<times> 'v) list \<Rightarrow> 'k \<Rightarrow> error + 'v" where
  "dict_get d k = (case map_of d k of None \<Rightarrow> Inl KeyError | Some v \<Rightarrow> Inr v)"

text \<open>
  A comprehension or loop whose body may raise: the elements are evaluated from left to
  right and the first exception ends the evaluation.
\<close>

fun traverse :: "('a \<Rightarrow> error + 'b) \<Rightarrow> 'a list \<Rightarrow> error + 'b list" where
  "traverse f [] = Inr []"
| "traverse f (x # xs) =
     (case f x of
        Inl e \<Rightarrow> Inl e
      | Inr y \<Rightarrow> (case traverse f xs of Inl e \<Rightarrow> Inl e | Inr ys \<Rightarrow> Inr (y # ys)))"

subsection \<open>NumPy: integer dtypes and memory-mapped arrays\<close>

datatype dtype = Int8 | Int16 | Int32 | Int64 | UInt8 | UInt16 | UInt32 | UInt64

fun width :: "dtype \<Rightarrow> nat" where
  "width Int8 = 8" | "width Int16 = 16" | "width Int32 = 32" | "width Int64 = 64"
| "width UInt8 = 8" | "width UInt16 = 16" | "width UInt32 = 32" | "width UInt64 = 64"

fun is_signed :: "dtype \<Rightarrow> bool" where
  "is_signed Int8 = True" | "is_signed Int16 = True"
| "is_signed Int32 = True" | "is_signed Int64 = True"
| "is_signed UInt8 = False" | "is_signed UInt16 = False"
| "is_signed UInt32 = False" | "is_signed UInt64 = False"

definition dtype_min :: "dtype \<Rightarrow> int" where
  "dtype_min t = (if is_signed t then - (2 ^ (width t - 1)) else 0)"

definition dtype_max :: "dtype \<Rightarrow> int" where
  "dtype_max t = (if is_signed t then 2 ^ (width t - 1) - 1 else 2 ^ width t - 1)"

text \<open>
  Storing a Python integer in an array of dtype \<open>t\<close>: the value modulo \<open>2 ^ width t\<close>, read
  as two's complement when \<open>t\<close> is signed. No range check is made. (An integer beyond 64
  bits is refused by the library with OverflowError; the model does not follow the ids that
  far, they are positions in a table.)
\<close>

definition to_dtype :: "dtype \<Rightarrow> int \<Rightarrow> int" where
  "to_dtype t v =
     (let m = v mod 2 ^ width t
      in if is_signed t \<and> 2 ^ (width t - 1) \<le> m then m - 2 ^ width t else m)"

text \<open>
  \<^verbatim>\<open>np.memmap(path, dtype=dtype, mode="w+", shape=(rows, cols))\<close>, after the file has been
  created: a new file is filled with zeros up to the size of the array and mapped; for a shape
  of zero bytes the file stays empty and \<^verbatim>\<open>mmap\<close> raises
  \<^verbatim>\<open>ValueError: cannot mmap an empty file\<close>.
\<close>

definition memmap_new :: "nat \<Rightarrow> nat \<Rightarrow> error + int list list" where
  "memmap_new rows cols =
     (if rows * cols = 0 then Inl ValueError else Inr (replicate rows (replicate cols 0)))"

text \<open>\<^verbatim>\<open>a[index] = row\<close> on a two-dimensional array; an index past the last row raises.\<close>

definition set_row :: "dtype \<Rightarrow> int list list \<Rightarrow> nat \<Rightarrow> int list \<Rightarrow> error + int list list" where
  "set_row t a index row =
     (if index < length a then Inr (a[index := map (to_dtype t) row]) else Inl IndexError)"

subsection \<open>Tokens and the pretrained table\<close>

definition lower_char :: "char \<Rightarrow> char" where
  "lower_char c =
     (case map_of (zip ''ABCDEFGHIJKLMNOPQRSTUVWXYZ'' ''abcdefghijklmnopqrstuvwxyz'') c of
        None \<Rightarrow> c
      | Some l \<Rightarrow> l)"

definition lower :: "string \<Rightarrow> string" where
  "lower s = map lower_char s"

text \<open>
  The pretrained table is the data frame \<^verbatim>\<open>words\<close> that \<^verbatim>\<open>pd.read_table\<close> returns: one row
  per token, the token as the row's label and the vector as its content. \<^verbatim>\<open>words.index\<close>
  is the list of labels. \<^verbatim>\<open>get_loc\<close> returns the position of a label and raises KeyError
  when the label is absent; it returns a position only when the label occurs once, so the
  theorems about it assume the labels distinct.
\<close>

type_synonym 'a table = "(string \<times> 'a list) list"

fun get_loc :: "string list \<Rightarrow> string \<Rightarrow> error + nat" where
  "get_loc [] w = Inl KeyError"
| "get_loc (l # ls) w =
     (if l = w then Inr 0
      else (case get_loc ls w of Inl e \<Rightarrow> Inl e | Inr n \<Rightarrow> Inr (Suc n)))"

definition words_index :: "'a table \<Rightarrow> string list" where
  "words_index words = map fst words"

text \<open>
  The resolver of \<^verbatim>\<open>run\<close>:
  \<^verbatim>\<open>vec = lambda w: words.index.get_loc(w) + 1 if w in words.index else words.index.get_loc("unk") + 1\<close>
\<close>

definition vec :: "'a table \<Rightarrow> string \<Rightarrow> error + int" where
  "vec words w =
     (if w \<in> set (words_index words)
      then (case get_loc (words_index words) w of Inl e \<Rightarrow> Inl e | Inr n \<Rightarrow> Inr (int n + 1))
      else (case get_loc (words_index words) ''unk'' of Inl e \<Rightarrow> Inl e | Inr n \<Rightarrow> Inr (int n + 1)))"

subsection \<open>Events\<close>

datatype stage = Tokenizing | VocabMapping

datatype 'k event =
    Dispatched stage
  | FileCreated string nat
  | TruncationWarning 'k

subsection \<open>\<^verbatim>\<open>EncodeTextTask.tokenize\<close>\<close>

text \<open>The tokenizer \<open>nlp\<close> (spaCy's) is a parameter: a function from a text to its tokens.\<close>

definition tokenize ::
  "(string \<Rightarrow> string list) \<Rightarrow> nat \<Rightarrow> ('k \<times> string) list
     \<Rightarrow> 'k event list \<times> (error + ('k \<times> string list) list)" where
  "tokenize nlp pos input =
     ([], Inr (fold (\<lambda>(rid, query) query_output. dict_set rid (nlp query) query_output) input []))"

subsection \<open>\<^verbatim>\<open>EncodeTextTask.map_vocab\<close>\<close>

record 'k shard =
  input_ids :: "int list list"
  attention_masks :: "int list list"
  query_mapping :: "('k \<times> nat \<times> nat) list"

text \<open>
  The two comprehensions of the loop body, before they are stored:
  \<^verbatim>\<open>[vec(query[index].lower()) if index < len(query) else 0 for index in range(0, maxlen)]\<close> and
  \<^verbatim>\<open>[1 if index < len(query) else 0 for index in range(0, maxlen)]\<close>.
\<close>

definition ids_row :: "(string \<Rightarrow> error + int) \<Rightarrow> nat \<Rightarrow> string list \<Rightarrow> error + int list" where
  "ids_row vec_fn maxlen query =
     traverse (\<lambda>index. if index < length query then vec_fn (lower (query ! index)) else Inr 0)
       [0..<maxlen]"

definition mask_row :: "nat \<Rightarrow> string list \<Rightarrow> int list" where
  "mask_row maxlen query = map (\<lambda>index. if index < length query then 1 else 0) [0..<maxlen]"

text \<open>
  The loop over \<^verbatim>\<open>enumerate(input.items())\<close>. An exception leaves the loop with the events
  so far; the warning of a record is printed before its row is computed.
\<close>

fun map_vocab_loop ::
  "nat \<Rightarrow> (string \<Rightarrow> error + int) \<Rightarrow> nat \<Rightarrow> dtype \<Rightarrow> nat \<Rightarrow> ('k \<times> string list) list
     \<Rightarrow> 'k shard \<Rightarrow> 'k event list \<times> (error + 'k shard)" where
  "map_vocab_loop pos vec_fn maxlen dtype index [] st = ([], Inr st)"
| "map_vocab_loop pos vec_fn maxlen dtype index ((rid, query) # rest) st =
     (let warning = (if length query > maxlen then [TruncationWarning rid] else []);
          st1 = st\<lparr>query_mapping := dict_set rid (pos, index) (query_mapping st)\<rparr>
      in case ids_row vec_fn maxlen query of
           Inl e \<Rightarrow> (warning, Inl e)
         | Inr ids \<Rightarrow>
             (case set_row dtype (input_ids st1) index ids of
                Inl e \<Rightarrow> (warning, Inl e)
              | Inr a \<Rightarrow>
                  (case set_row dtype (attention_masks st1) index (mask_row maxlen query) of
                     Inl e \<Rightarrow> (warning, Inl e)
                   | Inr m \<Rightarrow>
                       (case map_vocab_loop pos vec_fn maxlen dtype (Suc index) rest
                               (st1\<lparr>input_ids := a, attention_masks := m\<rparr>) of
                          (evs, r) \<Rightarrow> (warning @ evs, r)))))"

text \<open>
  \<^verbatim>\<open>map_vocab(pos, input, vec, maxlen, dtype, padding, truncating, output_path)\<close>. The two
  files are created first, each by its \<^verbatim>\<open>np.memmap\<close> call; \<open>padding\<close> and \<open>truncating\<close> are
  not read by the body and the files are named by their purpose and \<open>pos\<close>. The result is
  the dictionary \<^verbatim>\<open>{pos: {...}}\<close>, whose arrays are the two files read again.
\<close>

definition map_vocab ::
  "nat \<Rightarrow> ('k \<times> string list) list \<Rightarrow> (string \<Rightarrow> error + int) \<Rightarrow> nat \<Rightarrow> dtype
     \<Rightarrow> 'k event list \<times> (error + (nat \<times> 'k shard) list)" where
  "map_vocab pos input vec_fn maxlen dtype =
     (case memmap_new (length input) maxlen of
        Inl e \<Rightarrow> ([FileCreated ''input_ids'' pos], Inl e)
      | Inr a \<Rightarrow>
          (case memmap_new (length input) maxlen of
             Inl e \<Rightarrow> ([FileCreated ''input_ids'' pos, FileCreated ''attention_maps'' pos], Inl e)
           | Inr m \<Rightarrow>
               (case map_vocab_loop pos vec_fn maxlen dtype 0 input
                       \<lparr>input_ids = a, attention_masks = m, query_mapping = []\<rparr> of
                  (evs, r) \<Rightarrow>
                    (FileCreated ''input_ids'' pos # FileCreated ''attention_maps'' pos # evs,
                     case r of Inl e \<Rightarrow> Inl e | Inr st \<Rightarrow> Inr [(pos, st)]))))"

subsection \<open>\<^verbatim>\<open>TransformedDict\<close>\<close>

text \<open>
  The three dictionaries of an instance. \<open>real_store\<close> maps a shard to its two named
  arrays, \<open>combined_query\<close> and \<open>store\<close> map a record id to a shard and a row.
\<close>

record 'k transformed_dict =
  combined_query :: "('k \<times> nat \<times> nat) list"
  real_store :: "(nat \<times> (string \<times> int list list) list) list"
  store :: "('k \<times> nat \<times> nat) list"

text \<open>
  \<^verbatim>\<open>__init__(self, combined_query, *args)\<close> with one positional argument, the list of
  pairs that \<^verbatim>\<open>run\<close> passes. \<^verbatim>\<open>self.update\<close> stores every entry through
  \<^verbatim>\<open>__setitem__\<close>, whose key transformation is the identity.
\<close>

definition TransformedDict ::
  "('k \<times> nat \<times> nat) list \<Rightarrow> (nat \<times> (string \<times> int list list) list) list
     \<Rightarrow> 'k transformed_dict" where
  "TransformedDict cq args =
     (let dict_values = map (\<lambda>(rid, id_map). (rid, id_map)) cq
      in \<lparr>combined_query = cq,
          real_store = dict_update [] (dict_of args),
          store = dict_update [] (dict_of dict_values)\<rparr>)"

text \<open>\<^verbatim>\<open>v[pos]\<close> on an array: the row, or IndexError past the last row.\<close>

definition row_at :: "int list list \<Rightarrow> nat \<Rightarrow> error + int list" where
  "row_at v pos = (if pos < length v then Inr (v ! pos) else Inl IndexError)"

text \<open>
  \<^verbatim>\<open>__getitem__(self, key)\<close>: \<^verbatim>\<open>get_key\<close> reads \<open>combined_query\<close>, then every array of the
  shard is read at the row.
\<close>

definition getitem :: "'k transformed_dict \<Rightarrow> 'k \<Rightarrow> error + (string \<times> int list) list" where
  "getitem self key =
     (case dict_get (combined_query self) key of
        Inl e \<Rightarrow> Inl e
      | Inr (key', pos) \<Rightarrow>
          (case dict_get (real_store self) key' of
             Inl e \<Rightarrow> Inl e
           | Inr arrays \<Rightarrow>
               (case traverse (\<lambda>(k, v). case row_at v pos of Inl e \<Rightarrow> Inl e | Inr r \<Rightarrow> Inr (k, r))
                       arrays of
                  Inl e \<Rightarrow> Inl e
                | Inr items \<Rightarrow> Inr (dict_update [] items))))"

text \<open>\<^verbatim>\<open>__iter__\<close> and \<^verbatim>\<open>__len__\<close> read \<open>store\<close>.\<close>

definition keys :: "'k transformed_dict \<Rightarrow> 'k list" where
  "keys self = map fst (store self)"

definition len :: "'k transformed_dict \<Rightarrow> nat" where
  "len self = length (store self)"

subsection \<open>The dispatcher\<close>

text \<open>
  Modelled from the spec: \<^verbatim>\<open>RayExecutor.run(input, worker_fn, fixed_kwargs)\<close> of
  \<^verbatim>\<open>poly_nlp.parallel.ray_executor\<close>, which is not among the sources. It cuts the input
  mapping into partitions, calls the worker on every partition with the partition's index as
  \<open>pos\<close>, and fans the results in. How the input is cut is the dispatcher's concern: the
  function \<open>split\<close> is a parameter. Both calls in \<^verbatim>\<open>run\<close> read the result as one dictionary
  (record id to tokens, shard to shard result), so the workers' dictionaries are united in the
  order of the partitions. Every partition is worked on; the first exception among them, in
  that order, is the one raised.
\<close>

definition executor_run ::
  "(('k \<times> 'v) list \<Rightarrow> ('k \<times> 'v) list list)
     \<Rightarrow> (nat \<Rightarrow> ('k \<times> 'v) list \<Rightarrow> 'e list \<times> (error + ('a \<times> 'b) list))
     \<Rightarrow> ('k \<times> 'v) list \<Rightarrow> 'e list \<times> (error + ('a \<times> 'b) list)" where
  "executor_run split worker_fn input =
     (let outs = map (\<lambda>(pos, part). worker_fn pos part) (enumerate 0 (split input))
      in (concat (map fst outs),
          case traverse snd outs of
            Inl e \<Rightarrow> Inl e
          | Inr ds \<Rightarrow> Inr (fold (\<lambda>d acc. dict_update acc d) ds [])))"

subsection \<open>\<^verbatim>\<open>EncodeTextTask.run\<close>\<close>

text \<open>
  \<^verbatim>\<open>reduce(lambda x, y: {**x, **y["query_mapping"]}, vocab_mapped_text.values(), {})\<close>
\<close>

definition combined_query_mapping :: "(nat \<times> 'k shard) list \<Rightarrow> ('k \<times> nat \<times> nat) list" where
  "combined_query_mapping vocab_mapped_text =
     fold (\<lambda>y x. dict_update x (query_mapping y)) (map snd vocab_mapped_text) []"

text \<open>
  \<^verbatim>\<open>{k: v for k, v in val.items() if not k == "query_mapping"}\<close>: the two arrays of a shard
  result, under their names.
\<close>

definition shard_arrays :: "'k shard \<Rightarrow> (string \<times> int list list) list" where
  "shard_arrays val = [(''input_ids'', input_ids val), (''attention_masks'', attention_masks val)]"

text \<open>The value of \<^verbatim>\<open>"inputs"\<close>: the merged view over the shard results.\<close>

definition global_index :: "(nat \<times> 'k shard) list \<Rightarrow> 'k transformed_dict" where
  "global_index vocab_mapped_text =
     TransformedDict (combined_query_mapping vocab_mapped_text)
       (map (\<lambda>(key, val). (key, shard_arrays val)) vocab_mapped_text)"

text \<open>
  \<^verbatim>\<open>np.vstack((np.zeros_like(glove_vectors[0]), glove_vectors))\<close> with
  \<^verbatim>\<open>glove_vectors = words.to_numpy()\<close>: a table without rows has no row 0.
\<close>

definition embedding_matrix :: "('a::zero) table \<Rightarrow> error + 'a list list" where
  "embedding_matrix words =
     (let glove_vectors = map snd words
      in case glove_vectors of
           [] \<Rightarrow> Inl IndexError
         | row0 # _ \<Rightarrow> Inr (replicate (length row0) 0 # glove_vectors))"

record ('k, 'a) run_result =
  inputs :: "'k transformed_dict"
  embedding :: "'a list list"

text \<open>
  \<^verbatim>\<open>run(self, text_input, output_path, maxlen, dtype, ..., pretrained_file)\<close>. The argument
  \<open>pretrained_file\<close> is \<open>None\<close> or the table read from the file. The two partitionings
  of the dispatcher are \<open>split_text\<close> and \<open>split_tokens\<close>. The tokenization is
  dispatched before \<open>pretrained_file\<close> is tested. The \<^verbatim>\<open>else\<close> branch of the last
  statement is never reached: without a table \<^verbatim>\<open>run\<close> has raised before.
\<close>

definition run ::
  "(('k \<times> string) list \<Rightarrow> ('k \<times> string) list list)
     \<Rightarrow> (('k \<times> string list) list \<Rightarrow> ('k \<times> string list) list list)
     \<Rightarrow> (string \<Rightarrow> string list) \<Rightarrow> ('k \<times> string) list \<Rightarrow> nat \<Rightarrow> dtype
     \<Rightarrow> ('a::zero) table option \<Rightarrow> 'k event list \<times> (error + ('k, 'a) run_result)" where
  "run split_text split_tokens nlp text_input maxlen dtype pretrained_file =
     (case executor_run split_text (tokenize nlp) text_input of
        (ev_t, Inl e) \<Rightarrow> (Dispatched Tokenizing # ev_t, Inl e)
      | (ev_t, Inr tokenized_output) \<Rightarrow>
          (case pretrained_file of
             None \<Rightarrow> (Dispatched Tokenizing # ev_t, Inl NotImplementedError)
           | Some words \<Rightarrow>
               (case executor_run split_tokens
                       (\<lambda>pos input. map_vocab pos input (vec words) maxlen dtype)
                       tokenized_output of
                  (ev_m, Inl e) \<Rightarrow>
                    (Dispatched Tokenizing # ev_t @ Dispatched VocabMapping # ev_m, Inl e)
                | (ev_m, Inr vocab_mapped_text) \<Rightarrow>
                    (Dispatched Tokenizing # ev_t @ Dispatched VocabMapping # ev_m,
                     case embedding_matrix words of
                       Inl e \<Rightarrow> Inl e
                     | Inr m \<Rightarrow>
                         Inr \<lparr>inputs = global_index vocab_mapped_text, embedding = m\<rparr>))))"

subsection \<open>Dictionaries as association lists\<close>

text \<open>A dictionary has every key once.\<close>

definition is_dict :: "('k \<times> 'v) list \<Rightarrow> bool" where
  "is_dict d = distinct (map fst d)"

subsection \<open>Scenarios\<close>

text \<open>
  Two shards, the first with the records A and B, the second with the record C, as
  \<^verbatim>\<open>map_vocab\<close> returns them for \<open>maxlen = 3\<close> (lemma \<open>scenario_run_value\<close>).
\<close>

definition two_shards :: "(nat \<times> string shard) list" where
  "two_shards =
     [(0, \<lparr>input_ids = [[2, 3, 0], [4, 0, 0]], attention_masks = [[1, 1, 0], [1, 0, 0]],
           query_mapping = [(''A'', (0, 0)), (''B'', (0, 1))]\<rparr>),
      (1, \<lparr>input_ids = [[1, 2, 3]], attention_masks = [[1, 1, 1]],
           query_mapping = [(''C'', (1, 0))]\<rparr>)]"

text \<open>Two shards that both hold the record A, with different rows.\<close>

definition clashing_shards :: "(nat \<times> string shard) list" where
  "clashing_shards =
     [(0, \<lparr>input_ids = [[7, 0]], attention_masks = [[1, 0]],
           query_mapping = [(''A'', (0, 0))]\<rparr>),
      (1, \<lparr>input_ids = [[3, 0], [8, 9]], attention_masks = [[1, 0], [1, 1]],
           query_mapping = [(''B'', (1, 0)), (''A'', (1, 1))]\<rparr>)]"

text \<open>
  A pretrained table of four tokens with the sentinel \<open>unk\<close>, whose resolver maps
  \<open>the\<close>, \<open>cat\<close> and \<open>sat\<close> to 1, 2 and 3.
\<close>

definition scenario_table :: "int table" where
  "scenario_table = [(''the'', [1, 0]), (''cat'', [0, 1]), (''sat'', [1, 1]), (''unk'', [2, 2])]"

text \<open>A table without the sentinel.\<close>

definition no_unk_table :: "int table" where
  "no_unk_table = [(''the'', [1, 0]), (''cat'', [0, 1])]"

text \<open>
  A table of \<open>n\<close> tokens (\<open>a\<close>, \<open>aa\<close>, \<open>aaa\<close>, ...) and its last token, for vocabularies
  larger than a narrow dtype.
\<close>

definition a_table :: "nat \<Rightarrow> int table" where
  "a_table n = map (\<lambda>k. (replicate (Suc k) CHR ''a'', [int k])) [0..<n]"

definition a_token :: "nat \<Rightarrow> string" where
  "a_token n = replicate n CHR ''a''"

text \<open>A tokenizer for the scenarios: the words of a text, separated by spaces.\<close>

fun split_words :: "string \<Rightarrow> string \<Rightarrow> string list" where
  "split_words w [] = (if w = [] then [] else [w])"
| "split_words w (c # cs) =
     (if c = CHR '' '' then (if w = [] then split_words [] cs else w # split_words [] cs)
      else split_words (w @ [c]) cs)"

text \<open>
  A run over three records with the table \<open>scenario_table\<close>, the vocabulary mapping in two
  partitions: the records A and B, and the record C.
\<close>

definition scenario_run :: "string event list \<times> (error + (string, int) run_result)" where
  "scenario_run =
     run (\<lambda>xs. [xs]) (\<lambda>xs. [take 2 xs, drop 2 xs]) (split_words [])
       [(''A'', ''cat sat''), (''B'', ''dog''), (''C'', ''The cat sat down'')] 3 Int32
       (Some scenario_table)"

subsection \<open>The outcome of a call\<close>

text \<open>The exception a call ended with, or \<open>None\<close> when it returned.\<close>

definition outcome :: "error + 'a \<Rightarrow> error option" where
  "outcome r = (case r of Inl e \<Rightarrow> Some e | Inr x \<Rightarrow> None)"

section \<open>Properties\<close>

subsection \<open>Dictionary operations\<close>

lemma map_of_dict_set: "map_of (dict_set k v d) = (map_of d)(k \<mapsto> v)"
  by (induction d) (auto simp: fun_eq_iff)

lemma keys_dict_set: "fst ` set (dict_set k v d) = insert k (fst ` set d)"
  by (simp add: dom_map_of_conv_image_fst [symmetric] map_of_dict_set)

lemma distinct_dict_set: "distinct (map fst d) \<Longrightarrow> distinct (map fst (dict_set k v d))"
  by (induction d) (auto simp: keys_dict_set)

lemma map_of_dict_update: "map_of (dict_update d items) = map_of d ++ map_of (rev items)"
  unfolding dict_update_def
proof (induction items arbitrary: d)
  case Nil
  then show ?case by simp
next
  case (Cons p items)
  obtain k v where p: "p = (k, v)" by (cases p)
  show ?case
    by (simp add: Cons.IH p map_of_dict_set fun_eq_iff map_add_def split: option.splits)
qed

lemma distinct_dict_update: "distinct (map fst d) \<Longrightarrow> distinct (map fst (dict_update d items))"
  unfolding dict_update_def
  by (induction items arbitrary: d) (auto simp: distinct_dict_set)

lemma dict_set_fresh: "k \<notin> fst ` set d \<Longrightarrow> dict_set k v d = d @ [(k, v)]"
  by (induction d) auto

lemma dict_update_distinct_items:
  "distinct (map fst items) \<Longrightarrow> fst ` set d \<inter> fst ` set items = {} \<Longrightarrow> dict_update d items = d @ items"
  unfolding dict_update_def
proof (induction items arbitrary: d)
  case Nil
  then show ?case by simp
next
  case (Cons p items)
  obtain k v where p: "p = (k, v)" by (cases p)
  have "dict_set k v d = d @ [(k, v)]"
    using Cons.prems(2) by (intro dict_set_fresh) (auto simp: p)
  moreover have "fst ` set (d @ [(k, v)]) \<inter> fst ` set items = {}"
    using Cons.prems by (auto simp: p)
  ultimately show ?case
    using Cons.IH [of "d @ [(k, v)]"] Cons.prems(1) by (simp add: p)
qed


lemma keys_dict_update: "fst ` set (dict_update d items) = fst ` set d \<union> fst ` set items"
proof -
  have "fst ` set (dict_update d items) = dom (map_of (dict_update d items))"
    by (simp add: dom_map_of_conv_image_fst)
  also have "\<dots> = dom (map_of d) \<union> dom (map_of (rev items))"
    by (simp add: map_of_dict_update Un_commute)
  finally show ?thesis
    by (simp add: dom_map_of_conv_image_fst)
qed

lemma map_of_rev_distinct: "distinct (map fst xs) \<Longrightarrow> map_of (rev xs) = map_of xs"
  by (rule map_of_inject_set [THEN iffD2]) (simp_all add: rev_map [symmetric])

lemma map_of_dict_of: "map_of (dict_of items) = map_of (rev items)"
  by (simp add: dict_of_def map_of_dict_update)

lemma distinct_dict_of: "distinct (map fst (dict_of items))"
  by (simp add: dict_of_def distinct_dict_update)

lemma map_of_copy: "map_of (dict_update [] (dict_of items)) = map_of (rev items)"
  by (simp add: map_of_dict_update map_of_rev_distinct distinct_dict_of map_of_dict_of)

lemma dict_of_distinct: "distinct (map fst items) \<Longrightarrow> dict_of items = items"
  by (simp add: dict_of_def dict_update_distinct_items)

lemma copy_distinct: "distinct (map fst items) \<Longrightarrow> dict_update [] (dict_of items) = items"
  by (simp add: dict_of_distinct dict_update_distinct_items)

text \<open>The merge of the local maps: a later shard's entry replaces an earlier one.\<close>

lemma map_of_fold_merge:
  "map_of (fold (\<lambda>y x. dict_update x (query_mapping y)) shs acc) =
     fold (\<lambda>y m. m ++ map_of (rev (query_mapping y))) shs (map_of acc)"
  by (induction shs arbitrary: acc) (simp_all add: map_of_dict_update)

lemma fold_add_None:
  "\<forall>y \<in> set shs. r \<notin> fst ` set (query_mapping y) \<Longrightarrow>
     fold (\<lambda>y m. m ++ map_of (rev (query_mapping y))) shs m r = m r"
  by (induction shs arbitrary: m) (auto simp: map_add_def map_of_eq_None_iff [THEN iffD2] split: option.splits)

lemma fold_add_last:
  assumes "map_of (rev (query_mapping sh)) r = Some e"
    and "\<forall>y \<in> set post. r \<notin> fst ` set (query_mapping y)"
  shows "fold (\<lambda>y m. m ++ map_of (rev (query_mapping y))) (pre @ sh # post) m r = Some e"
  using assms by (simp add: fold_add_None)

lemma distinct_fold_merge:
  "distinct (map fst acc) \<Longrightarrow> distinct (map fst (fold (\<lambda>y x. dict_update x (query_mapping y)) shs acc))"
  by (induction shs arbitrary: acc) (simp_all add: distinct_dict_update)

lemma keys_fold_merge:
  "fst ` set (fold (\<lambda>y x. dict_update x (query_mapping y)) shs acc) =
     fst ` set acc \<union> (\<Union>y \<in> set shs. fst ` set (query_mapping y))"
  by (induction shs arbitrary: acc) (auto simp: keys_dict_update)

lemma combined_None:
  "\<forall>(p, sh) \<in> set vmt. r \<notin> fst ` set (query_mapping sh) \<Longrightarrow>
     map_of (combined_query_mapping vmt) r = None"
  unfolding combined_query_mapping_def map_of_fold_merge
  by (subst fold_add_None) force+

lemma combined_last:
  assumes "vmt = pre @ (s, sh) # post"
    and "distinct (map fst (query_mapping sh))"
    and "map_of (query_mapping sh) r = Some e"
    and "\<forall>(p, sh') \<in> set post. r \<notin> fst ` set (query_mapping sh')"
  shows "map_of (combined_query_mapping vmt) r = Some e"
proof -
  have "map_of (rev (query_mapping sh)) r = Some e"
    using assms(2,3) by (simp add: map_of_rev_distinct)
  moreover have "\<forall>y \<in> set (map snd post). r \<notin> fst ` set (query_mapping y)"
    using assms(4) by force
  ultimately show ?thesis
    unfolding combined_query_mapping_def map_of_fold_merge assms(1)
    using fold_add_last [of sh r e "map snd post" "map snd pre"] by simp
qed

lemma real_store_lookup:
  "distinct (map fst vmt) \<Longrightarrow> (s, sh) \<in> set vmt \<Longrightarrow>
     map_of (real_store (global_index vmt)) s = Some (shard_arrays sh)"
proof -
  assume d: "distinct (map fst vmt)" and m: "(s, sh) \<in> set vmt"
  let ?args = "map (\<lambda>(key, val). (key, shard_arrays val)) vmt"
  have k: "map fst ?args = map fst vmt" by (induction vmt) auto
  have "map_of vmt s = Some sh"
    using d m by simp
  then have "map_of ?args s = Some (shard_arrays sh)"
    by (simp add: map_of_map)
  moreover have "distinct (map fst ?args)"
    unfolding k by (rule d)
  ultimately show ?thesis
    by (simp add: global_index_def TransformedDict_def map_of_copy map_of_rev_distinct)
qed

lemma getitem_rows:
  assumes "map_of (combined_query_mapping vmt) r = Some (s, i)"
    and "distinct (map fst vmt)" and "(s, sh) \<in> set vmt"
    and "i < length (input_ids sh)" and "i < length (attention_masks sh)"
  shows "getitem (global_index vmt) r =
           Inr [(''input_ids'', input_ids sh ! i), (''attention_masks'', attention_masks sh ! i)]"
proof -
  have cq: "combined_query (global_index vmt) = combined_query_mapping vmt"
    by (simp add: global_index_def TransformedDict_def)
  show ?thesis
    using assms(1,4,5) real_store_lookup [OF assms(2,3)]
    by (simp add: getitem_def dict_get_def cq shard_arrays_def row_at_def dict_update_def)
qed

subsection \<open>Lookups in the merged view\<close>

text \<open>
  Claim C9. A record id that occurs in no shard's local map is not a key of the merged
  map, and \<^verbatim>\<open>__getitem__\<close> fails on it with KeyError, the exception by which the module
  reports an unknown record; no value is returned.
\<close>

theorem getitem_unknown_record:
  assumes "\<forall>(p, sh) \<in> set vocab_mapped_text. r \<notin> fst ` set (query_mapping sh)"
  shows "getitem (global_index vocab_mapped_text) r = Inl KeyError"
proof -
  have "map_of (combined_query_mapping vocab_mapped_text) r = None"
    using assms by (rule combined_None)
  then show ?thesis
    by (simp add: getitem_def dict_get_def global_index_def TransformedDict_def)
qed

theorem getitem_unknown_record_witness:
  "getitem (global_index two_shards) ''Z'' = Inl KeyError"
  using getitem_unknown_record [of two_shards "''Z''"]
  by (simp add: two_shards_def)

text \<open>
  Claim C1. Let the record id \<open>r\<close> be in the local map of the shard \<open>s\<close> only, which
  gave it the row \<open>i\<close>. Then \<^verbatim>\<open>__getitem__\<close> returns the dictionary of row \<open>i\<close> of the
  \<open>input_ids\<close> array of \<open>s\<close> and row \<open>i\<close> of its \<open>attention_masks\<close> array. The result is
  written with the arrays of \<open>s\<close> alone: no other shard, whatever its rows, has a part in it.
\<close>

theorem getitem_reads_own_shard:
  assumes "is_dict vocab_mapped_text"
    and "(s, sh) \<in> set vocab_mapped_text"
    and "is_dict (query_mapping sh)"
    and "map_of (query_mapping sh) r = Some (s, i)"
    and "i < length (input_ids sh)" and "i < length (attention_masks sh)"
    and "\<forall>(p, sh') \<in> set vocab_mapped_text. p \<noteq> s \<longrightarrow> r \<notin> fst ` set (query_mapping sh')"
  shows "getitem (global_index vocab_mapped_text) r =
           Inr [(''input_ids'', input_ids sh ! i), (''attention_masks'', attention_masks sh ! i)]"
proof -
  obtain pre post where split: "vocab_mapped_text = pre @ (s, sh) # post"
    using assms(2) by (auto dest: split_list)
  have "\<forall>(p, sh') \<in> set post. p \<noteq> s"
    using assms(1) unfolding split is_dict_def by force
  then have "\<forall>(p, sh') \<in> set post. r \<notin> fst ` set (query_mapping sh')"
    using assms(7) unfolding split by fastforce
  then have "map_of (combined_query_mapping vocab_mapped_text) r = Some (s, i)"
    using assms(3,4) split unfolding is_dict_def by (intro combined_last) auto
  then show ?thesis
    using assms(1,2,5,6) unfolding is_dict_def by (rule getitem_rows)
qed

theorem getitem_reads_own_shard_witness:
  "getitem (global_index two_shards) ''C'' =
     Inr [(''input_ids'', [1, 2, 3]), (''attention_masks'', [1, 1, 1])]"
  using getitem_reads_own_shard [of two_shards 1
      "\<lparr>input_ids = [[1, 2, 3]], attention_masks = [[1, 1, 1]],
         query_mapping = [(''C'', (1, 0))]\<rparr>" "''C''" 0]
  by (simp add: two_shards_def is_dict_def)

text \<open>
  Claim C3, as the code has it. The merge has no check for a record id that two shards
  claim and raises nothing: the entry of the shard that is merged last replaces the entries
  of the shards before it, and \<^verbatim>\<open>__getitem__\<close> reads the row of that last shard.
\<close>

theorem merge_last_shard_wins:
  assumes "vocab_mapped_text = pre @ (s, sh) # post"
    and "is_dict vocab_mapped_text"
    and "is_dict (query_mapping sh)"
    and "map_of (query_mapping sh) r = Some (s, i)"
    and "i < length (input_ids sh)" and "i < length (attention_masks sh)"
    and "\<forall>(p, sh') \<in> set post. r \<notin> fst ` set (query_mapping sh')"
  shows "dict_get (combined_query (global_index vocab_mapped_text)) r = Inr (s, i) \<and>
         getitem (global_index vocab_mapped_text) r =
           Inr [(''input_ids'', input_ids sh ! i), (''attention_masks'', attention_masks sh ! i)]"
proof -
  have m: "map_of (combined_query_mapping vocab_mapped_text) r = Some (s, i)"
    using assms(1,3,4,7) unfolding is_dict_def by (intro combined_last) auto
  have "(s, sh) \<in> set vocab_mapped_text"
    by (simp add: assms(1))
  with m have "getitem (global_index vocab_mapped_text) r =
      Inr [(''input_ids'', input_ids sh ! i), (''attention_masks'', attention_masks sh ! i)]"
    using assms(2,5,6) unfolding is_dict_def by (intro getitem_rows) auto
  with m show ?thesis
    by (simp add: dict_get_def global_index_def TransformedDict_def)
qed

theorem merge_last_shard_wins_witness:
  "dict_get (combined_query (global_index clashing_shards)) ''A'' = Inr (1, 1) \<and>
   getitem (global_index clashing_shards) ''A'' =
     Inr [(''input_ids'', [8, 9]), (''attention_masks'', [1, 1])]"
  using merge_last_shard_wins [of clashing_shards
      "[(0, \<lparr>input_ids = [[7, 0]], attention_masks = [[1, 0]],
             query_mapping = [(''A'', (0, 0))]\<rparr>)]" 1
      "\<lparr>input_ids = [[3, 0], [8, 9]], attention_masks = [[1, 0], [1, 1]],
         query_mapping = [(''B'', (1, 0)), (''A'', (1, 1))]\<rparr>" "[]" "''A''" 1]
  by (simp add: clashing_shards_def is_dict_def)

text \<open>
  Claim C3 as the spec states it fails: both shards of \<open>clashing_shards\<close> hold the record
  A, the view is built, and the row that shard 0 had stored for A is no longer reachable.
\<close>

theorem duplicate_record_counterexample:
  "combined_query (global_index clashing_shards) = [(''A'', (1, 1)), (''B'', (1, 0))] \<and>
   keys (global_index clashing_shards) = [''A'', ''B''] \<and>
   getitem (global_index clashing_shards) ''A'' =
     Inr [(''input_ids'', [8, 9]), (''attention_masks'', [1, 1])]"
  by (simp add: clashing_shards_def global_index_def TransformedDict_def
      combined_query_mapping_def dict_update_def dict_of_def keys_def getitem_def dict_get_def
      shard_arrays_def row_at_def)

subsection \<open>The shard encoder\<close>

lemma traverse_Inr: "traverse f xs = Inr ys \<Longrightarrow> list_all2 (\<lambda>x y. f x = Inr y) xs ys"
  by (induction xs arbitrary: ys) (auto split: sum.splits)

lemma traverse_Inl: "traverse f xs = Inl e \<Longrightarrow> \<exists>x \<in> set xs. f x = Inl e"
  by (induction xs) (auto split: sum.splits)

lemma traverse_total:
  "\<forall>x \<in> set xs. \<exists>y. f x = Inr y \<Longrightarrow> traverse f xs = Inr (map (\<lambda>x. projr (f x)) xs)"
  by (induction xs) auto

lemma traverse_fails: "x \<in> set xs \<Longrightarrow> isl (f x) \<Longrightarrow> isl (traverse f xs)"
  by (induction xs) (auto split: sum.splits)

lemma to_dtype_0 [simp]: "to_dtype t 0 = 0"
  by (simp add: to_dtype_def)

lemma to_dtype_1 [simp]: "to_dtype t 1 = 1"
  by (cases t) (simp_all add: to_dtype_def)

lemma int_mod_shift:
  fixes v m :: int
  assumes "- m \<le> v" and "v < 0"
  shows "v mod m = v + m"
proof -
  have "(v + m) mod m = v + m"
    using assms by (intro mod_pos_pos_trivial) auto
  then show ?thesis by simp
qed

lemma width_pos: "0 < width t"
  by (cases t) simp_all

lemma to_dtype_in_range:
  assumes "dtype_min t \<le> v" and "v \<le> dtype_max t"
  shows "to_dtype t v = v"
proof -
  define h :: int where "h = 2 ^ (width t - 1)"
  have m: "(2::int) ^ width t = 2 * h"
    using width_pos [of t] unfolding h_def by (cases "width t") simp_all
  have hpos: "0 < h" unfolding h_def by simp
  show ?thesis
  proof (cases "is_signed t")
    case True
    then have lo: "- h \<le> v" and hi: "v < h"
      using assms unfolding dtype_min_def dtype_max_def h_def by simp_all
    show ?thesis
    proof (cases "v < 0")
      case True
      have "v mod (2 * h) = v + 2 * h"
        using lo True hpos by (intro int_mod_shift) auto
      then show ?thesis
        using lo \<open>is_signed t\<close> unfolding to_dtype_def m h_def [symmetric] by (simp add: Let_def)
    next
      case False
      then have "v mod (2 * h) = v"
        using hi hpos by (intro mod_pos_pos_trivial) auto
      then show ?thesis
        using hi unfolding to_dtype_def m h_def [symmetric] by (simp add: Let_def)
    qed
  next
    case False
    then have "0 \<le> v" and "v < 2 * h"
      using assms unfolding dtype_min_def dtype_max_def m [symmetric] by simp_all
    then have "v mod (2 * h) = v"
      by (intro mod_pos_pos_trivial) auto
    then show ?thesis
      using False unfolding to_dtype_def m by (simp add: Let_def)
  qed
qed

lemma ids_row_total:
  assumes "\<forall>i < min (length query) maxlen. \<exists>v. vec_fn (lower (query ! i)) = Inr v"
  shows "ids_row vec_fn maxlen query =
           Inr (map (\<lambda>i. if i < length query then projr (vec_fn (lower (query ! i))) else 0)
                  [0..<maxlen])"
proof -
  have "ids_row vec_fn maxlen query =
      Inr (map (\<lambda>i. projr (if i < length query then vec_fn (lower (query ! i)) else Inr 0))
             [0..<maxlen])"
    unfolding ids_row_def using assms by (intro traverse_total) auto
  also have "map (\<lambda>i. projr (if i < length query then vec_fn (lower (query ! i)) else Inr 0))
      [0..<maxlen] =
    map (\<lambda>i. if i < length query then projr (vec_fn (lower (query ! i))) else 0) [0..<maxlen]"
    by (intro map_cong) auto
  finally show ?thesis .
qed

lemma mask_row_stored: "map (to_dtype t) (mask_row maxlen query) = mask_row maxlen query"
  by (simp add: mask_row_def)


lemma map_vocab_loop_ok:
  assumes "\<forall>(rid, q) \<in> set items. ids_row vec_fn maxlen q = Inr (ids q)"
    and "index + length items \<le> length (input_ids st)"
    and "index + length items \<le> length (attention_masks st)"
  shows "map_vocab_loop pos vec_fn maxlen dtype index items st =
     (concat (map (\<lambda>(rid, q). if maxlen < length q then [TruncationWarning rid] else []) items),
      Inr \<lparr>input_ids = take index (input_ids st) @
                map (\<lambda>(rid, q). map (to_dtype dtype) (ids q)) items @
                drop (index + length items) (input_ids st),
           attention_masks = take index (attention_masks st) @
                map (\<lambda>(rid, q). mask_row maxlen q) items @
                drop (index + length items) (attention_masks st),
           query_mapping = dict_update (query_mapping st)
                (map (\<lambda>(j, (rid, q)). (rid, (pos, j))) (enumerate index items))\<rparr>)"
  using assms
proof (induction items arbitrary: index st)
  case Nil
  then show ?case by (simp add: dict_update_def)
next
  case (Cons item items)
  obtain rid q where item: "item = (rid, q)" by (cases item)
  have row: "ids_row vec_fn maxlen q = Inr (ids q)"
    using Cons.prems(1) by (simp add: item)
  have i1: "index < length (input_ids st)" and i2: "index < length (attention_masks st)"
    using Cons.prems(2,3) by simp_all
  let ?st = "st\<lparr>query_mapping := dict_set rid (pos, index) (query_mapping st),
               input_ids := (input_ids st)[index := map (to_dtype dtype) (ids q)],
               attention_masks := (attention_masks st)[index := mask_row maxlen q]\<rparr>"
  have step: "map_vocab_loop pos vec_fn maxlen dtype index (item # items) st =
      (case map_vocab_loop pos vec_fn maxlen dtype (Suc index) items ?st of
         (evs, r) \<Rightarrow> ((if maxlen < length q then [TruncationWarning rid] else []) @ evs, r))"
    using i1 i2 by (simp add: item row set_row_def mask_row_stored Let_def)
  have ih: "map_vocab_loop pos vec_fn maxlen dtype (Suc index) items ?st =
     (concat (map (\<lambda>(rid, q). if maxlen < length q then [TruncationWarning rid] else []) items),
      Inr \<lparr>input_ids = take (Suc index) (input_ids ?st) @
                map (\<lambda>(rid, q). map (to_dtype dtype) (ids q)) items @
                drop (Suc index + length items) (input_ids ?st),
           attention_masks = take (Suc index) (attention_masks ?st) @
                map (\<lambda>(rid, q). mask_row maxlen q) items @
                drop (Suc index + length items) (attention_masks ?st),
           query_mapping = dict_update (query_mapping ?st)
                (map (\<lambda>(j, (rid, q)). (rid, (pos, j))) (enumerate (Suc index) items))\<rparr>)"
    using Cons.prems by (intro Cons.IH) simp_all
  show ?case
    unfolding step ih using i1 i2
    by (simp add: item take_Suc_conv_app_nth dict_update_def)
qed

lemma enumerate_keys:
  "map fst (map (\<lambda>(j, (rid, q)). (rid, (pos, j))) (enumerate n items)) = map fst items"
  by (induction items arbitrary: n) auto

lemma map_vocab_closed:
  assumes "input \<noteq> []" and "0 < maxlen"
    and "\<forall>(rid, tokens) \<in> set input. \<forall>i < min (length tokens) maxlen.
           \<exists>v. vec_fn (lower (tokens ! i)) = Inr v"
  shows "map_vocab pos input vec_fn maxlen dtype =
     (FileCreated ''input_ids'' pos # FileCreated ''attention_maps'' pos #
        concat (map (\<lambda>(rid, tokens). if maxlen < length tokens then [TruncationWarning rid] else [])
                  input),
      Inr [(pos,
        \<lparr>input_ids = map (\<lambda>(rid, tokens). map (\<lambda>i. if i < length tokens
               then to_dtype dtype (projr (vec_fn (lower (tokens ! i)))) else 0) [0..<maxlen]) input,
         attention_masks = map (\<lambda>(rid, tokens). map (\<lambda>i. if i < length tokens then 1 else 0)
               [0..<maxlen]) input,
         query_mapping = dict_update []
               (map (\<lambda>(row, (rid, tokens)). (rid, (pos, row))) (enumerate 0 input))\<rparr>)])"
proof -
  let ?ids = "\<lambda>q. map (\<lambda>i. if i < length q then projr (vec_fn (lower (q ! i))) else 0) [0..<maxlen]"
  have rows: "\<forall>(rid, q) \<in> set input. ids_row vec_fn maxlen q = Inr (?ids q)"
    using assms(3) by (auto intro!: ids_row_total)
  have mm: "memmap_new (length input) maxlen =
      Inr (replicate (length input) (replicate maxlen 0))"
    using assms(1,2) by (simp add: memmap_new_def)
  have loop: "map_vocab_loop pos vec_fn maxlen dtype 0 input
      \<lparr>input_ids = replicate (length input) (replicate maxlen 0),
       attention_masks = replicate (length input) (replicate maxlen 0), query_mapping = []\<rparr> =
     (concat (map (\<lambda>(rid, q). if maxlen < length q then [TruncationWarning rid] else []) input),
      Inr \<lparr>input_ids = map (\<lambda>(rid, q). map (to_dtype dtype) (?ids q)) input,
           attention_masks = map (\<lambda>(rid, q). mask_row maxlen q) input,
           query_mapping = dict_update []
             (map (\<lambda>(j, (rid, q)). (rid, (pos, j))) (enumerate 0 input))\<rparr>)"
    using map_vocab_loop_ok [OF rows, of 0
        "\<lparr>input_ids = replicate (length input) (replicate maxlen 0),
          attention_masks = replicate (length input) (replicate maxlen 0), query_mapping = []\<rparr>"
        pos dtype]
    by simp
  show ?thesis
    by (auto simp: map_vocab_def mm loop mask_row_def)
qed

lemma dict_update_Nil_distinct: "distinct (map fst items) \<Longrightarrow> dict_update [] items = items"
  using dict_update_distinct_items [of items "[]"] by simp

lemma query_mapping_of_dict:
  assumes "is_dict input"
  shows "dict_update [] (map (\<lambda>(row, (rid, tokens)). (rid, (pos, row))) (enumerate n input)) =
       map (\<lambda>(row, (rid, tokens)). (rid, (pos, row))) (enumerate n input)"
proof (rule dict_update_Nil_distinct)
  show "distinct (map fst (map (\<lambda>(row, (rid, tokens)). (rid, (pos, row))) (enumerate n input)))"
    unfolding enumerate_keys using assms by (simp add: is_dict_def)
qed

lemma map_vocab_empty:
  "map_vocab pos [] vec_fn maxlen dtype = ([FileCreated ''input_ids'' pos], Inl ValueError)"
  by (simp add: map_vocab_def memmap_new_def)

text \<open>
  Claim C2, as the code has it. Let the shard have a record and let \<open>maxlen\<close> be positive
  (\<^verbatim>\<open>np.memmap\<close> then returns), and let the resolver return an id for every token it is asked.
  Then \<^verbatim>\<open>map_vocab\<close> returns, having printed one warning for each record longer than
  \<open>maxlen\<close> and nothing else; the record at position \<open>row\<close> of the input has the row \<open>row\<close>;
  at a position \<open>i < min (len tokens) maxlen\<close> the row of \<open>input_ids\<close> holds the resolver's id
  for the lowercased token \<open>i\<close>, converted to \<open>dtype\<close>, and the mask holds 1; at every other
  position below \<open>maxlen\<close> both hold 0. The conversion keeps an id that \<open>dtype\<close> can
  represent; an id outside the range of \<open>dtype\<close> is stored modulo \<open>2 ^ width\<close>.
\<close>

theorem map_vocab_encodes:
  assumes "input \<noteq> []" and "0 < maxlen" and "is_dict input"
    and "\<forall>(rid, tokens) \<in> set input. \<forall>i < min (length tokens) maxlen.
           \<exists>v. vec_fn (lower (tokens ! i)) = Inr v"
  shows "map_vocab pos input vec_fn maxlen dtype =
     (FileCreated ''input_ids'' pos # FileCreated ''attention_maps'' pos #
        concat (map (\<lambda>(rid, tokens). if maxlen < length tokens then [TruncationWarning rid] else [])
                  input),
      Inr [(pos,
        \<lparr>input_ids = map (\<lambda>(rid, tokens). map (\<lambda>i. if i < length tokens
               then to_dtype dtype (projr (vec_fn (lower (tokens ! i)))) else 0) [0..<maxlen]) input,
         attention_masks = map (\<lambda>(rid, tokens). map (\<lambda>i. if i < length tokens then 1 else 0)
               [0..<maxlen]) input,
         query_mapping = map (\<lambda>(row, (rid, tokens)). (rid, (pos, row))) (enumerate 0 input)\<rparr>)])
     \<and> (\<forall>v. dtype_min dtype \<le> v \<and> v \<le> dtype_max dtype \<longrightarrow> to_dtype dtype v = v)"
  using map_vocab_closed [OF assms(1,2,4), of pos dtype] query_mapping_of_dict [OF assms(3)]
  by (simp add: to_dtype_in_range)

theorem map_vocab_encodes_witness:
  "map_vocab 0 [(''r'', [''the'', ''cat'', ''sat''])] (vec scenario_table) 5 Int32 =
     ([FileCreated ''input_ids'' 0, FileCreated ''attention_maps'' 0],
      Inr [(0, \<lparr>input_ids = [[1, 2, 3, 0, 0]], attention_masks = [[1, 1, 1, 0, 0]],
                 query_mapping = [(''r'', (0, 0))]\<rparr>)])"
proof -
  have v: "vec scenario_table ''the'' = Inr 1" "vec scenario_table ''cat'' = Inr 2"
    "vec scenario_table ''sat'' = Inr 3"
    by (simp_all add: vec_def scenario_table_def words_index_def)
  have l: "lower ''the'' = ''the''" "lower ''cat'' = ''cat''" "lower ''sat'' = ''sat''"
    by (simp_all add: lower_def lower_char_def)
  have h: "\<forall>(rid, tokens) \<in> set [(''r'', [''the'', ''cat'', ''sat''])].
      \<forall>i < min (length tokens) 5. \<exists>v. vec scenario_table (lower (tokens ! i)) = Inr v"
    by (auto simp: v l less_Suc_eq numeral_3_eq_3)
  show ?thesis
    using map_vocab_encodes [of "[(''r'', [''the'', ''cat'', ''sat''])]" 5
        "vec scenario_table" 0 Int32, OF _ _ _ h]
    by (simp add: is_dict_def v l upt_rec to_dtype_def)
qed

text \<open>
  Claim C2 as the spec states it fails for a dtype that cannot represent the id: the
  resolver's id for the token is 200, and the row stored in an \<open>Int8\<close> array holds - 56
  (the conversion of NumPy 1.x; a later release raises OverflowError and stores no row).
\<close>

theorem narrow_dtype_row_counterexample:
  "map_vocab 0 [(''r'', [''a''])] (\<lambda>w. Inr 200) 1 Int8 =
     ([FileCreated ''input_ids'' 0, FileCreated ''attention_maps'' 0],
      Inr [(0, \<lparr>input_ids = [[- 56]], attention_masks = [[1]],
                 query_mapping = [(''r'', (0, 0))]\<rparr>)])"
  by (simp add: map_vocab_def memmap_new_def ids_row_def mask_row_def set_row_def to_dtype_def)

subsection \<open>The empty shard\<close>

lemma combined_skip_empty:
  "query_mapping e = [] \<Longrightarrow>
     combined_query_mapping (pre @ (p, e) # post) = combined_query_mapping (pre @ post)"
  by (simp add: combined_query_mapping_def dict_update_def)

lemma set_dict_set: "set (dict_set k v d) \<subseteq> insert (k, v) (set d)"
  by (induction d) (auto split: if_splits)

lemma set_dict_update: "set (dict_update d items) \<subseteq> set d \<union> set items"
  unfolding dict_update_def
proof (induction items arbitrary: d)
  case Nil
  then show ?case by simp
next
  case (Cons p items)
  obtain k v where p: "p = (k, v)" by (cases p)
  show ?case
    using Cons.IH [of "dict_set k v d"] set_dict_set [of k v d] by (auto simp: p)
qed

lemma set_fold_merge:
  "set (fold (\<lambda>y x. dict_update x (query_mapping y)) shs acc) \<subseteq>
     set acc \<union> (\<Union>y \<in> set shs. set (query_mapping y))"
proof (induction shs arbitrary: acc)
  case Nil
  then show ?case by simp
next
  case (Cons sh shs)
  show ?case
    using Cons.IH [of "dict_update acc (query_mapping sh)"] set_dict_update [of acc "query_mapping sh"]
    by auto
qed

lemma combined_entries:
  assumes "map_of (combined_query_mapping vmt) r = Some x"
  shows "\<exists>(s, sh) \<in> set vmt. (r, x) \<in> set (query_mapping sh)"
proof -
  have "(r, x) \<in> set (combined_query_mapping vmt)"
    using assms by (rule map_of_SomeD)
  then have "(r, x) \<in> (\<Union>y \<in> set (map snd vmt). set (query_mapping y))"
    using set_fold_merge [of "map snd vmt" "[]"] unfolding combined_query_mapping_def by auto
  then show ?thesis by force
qed

lemma real_store_skip:
  assumes "s \<noteq> p"
  shows "map_of (real_store (global_index (pre @ (p, e) # post))) s =
         map_of (real_store (global_index (pre @ post))) s"
  using assms
  by (simp add: global_index_def TransformedDict_def map_of_copy map_add_def split: option.splits)

text \<open>
  Claim C5, as the code has it. On a partition without records the shard encoder fails:
  \<^verbatim>\<open>np.memmap\<close> creates the \<open>input_ids\<close> file, cannot map its zero bytes and raises
  ValueError, so no shard result is returned. In the merge, a shard result \<open>e\<close> without rows
  and with an empty local map, stored under a shard number \<open>p\<close> that no entry of the other
  local maps names, changes nothing that the view shows: the merged record map, the keys, the
  length and the result of every lookup are those of the merge without it.
\<close>

theorem empty_shard:
  fixes pre post :: "(nat \<times> 'k shard) list"
  assumes "\<forall>(s, sh) \<in> set (pre @ post). \<forall>(r, (s', i)) \<in> set (query_mapping sh). s' \<noteq> p"
    and "e = \<lparr>input_ids = [], attention_masks = [], query_mapping = []\<rparr>"
  shows "map_vocab pos ([] :: ('k \<times> string list) list) vec_fn maxlen dtype =
           ([FileCreated ''input_ids'' pos], Inl ValueError) \<and>
         combined_query (global_index (pre @ (p, e) # post)) =
           combined_query (global_index (pre @ post)) \<and>
         keys (global_index (pre @ (p, e) # post)) = keys (global_index (pre @ post)) \<and>
         len (global_index (pre @ (p, e) # post)) = len (global_index (pre @ post)) \<and>
         (\<forall>r. getitem (global_index (pre @ (p, e) # post)) r =
               getitem (global_index (pre @ post)) r)"
proof -
  have q: "query_mapping e = []" by (simp add: assms(2))
  have cq: "combined_query_mapping (pre @ (p, e) # post) = combined_query_mapping (pre @ post)"
    using q by (rule combined_skip_empty)
  have get: "getitem (global_index (pre @ (p, e) # post)) r =
      getitem (global_index (pre @ post)) r" for r
  proof (cases "map_of (combined_query_mapping (pre @ post)) r")
    case None
    then show ?thesis
      by (simp add: getitem_def dict_get_def global_index_def TransformedDict_def cq)
  next
    case (Some x)
    obtain s i where x: "x = (s, i)" by (cases x)
    obtain s0 sh where "(s0, sh) \<in> set (pre @ post)" and "(r, (s, i)) \<in> set (query_mapping sh)"
      using combined_entries [OF Some] unfolding x by auto
    then have "s \<noteq> p"
      using assms(1) by fastforce
    then have "map_of (real_store (global_index (pre @ (p, e) # post))) s =
        map_of (real_store (global_index (pre @ post))) s"
      by (rule real_store_skip)
    moreover have "combined_query (global_index (pre @ (p, e) # post)) =
        combined_query (global_index (pre @ post))"
      by (simp add: global_index_def TransformedDict_def cq)
    ultimately show ?thesis
      using Some by (simp add: getitem_def dict_get_def x global_index_def TransformedDict_def cq)
  qed
  show ?thesis
    using get by (simp add: map_vocab_empty global_index_def TransformedDict_def cq keys_def len_def)
qed

theorem empty_shard_witness:
  "map_vocab 2 ([] :: (string \<times> string list) list) (vec scenario_table) 3 Int32 =
     ([FileCreated ''input_ids'' 2], Inl ValueError) \<and>
   keys (global_index (two_shards @ [(2, \<lparr>input_ids = [], attention_masks = [],
           query_mapping = []\<rparr>)])) = keys (global_index two_shards) \<and>
   getitem (global_index (two_shards @ [(2, \<lparr>input_ids = [], attention_masks = [],
           query_mapping = []\<rparr>)])) ''C'' = getitem (global_index two_shards) ''C''"
proof -
  have h: "\<forall>(s, sh) \<in> set (two_shards @ []). \<forall>(r, (s', i)) \<in> set (query_mapping sh). s' \<noteq> 2"
    by (simp add: two_shards_def)
  show ?thesis
    using empty_shard [OF h refl, of 2 "vec scenario_table" 3 Int32] by simp
qed

text \<open>
  Claim C5 as the spec states it fails at its first part: the encoder does not return
  arrays of shape \<open>(0, maxlen)\<close> for the empty partition, it raises (with \<^verbatim>\<open>np.memmap\<close> as
  the model has it, refusing a map of zero bytes).
\<close>

theorem empty_shard_counterexample:
  "map_vocab 2 ([] :: (string \<times> string list) list) (vec scenario_table) 3 Int32 =
     ([FileCreated ''input_ids'' 2], Inl ValueError)"
  by (simp add: map_vocab_def memmap_new_def)

subsection \<open>The resolver\<close>

lemma get_loc_notin: "w \<notin> set ls \<Longrightarrow> get_loc ls w = Inl KeyError"
  by (induction ls) auto

lemma get_loc_in: "w \<in> set ls \<Longrightarrow> \<exists>n < length ls. get_loc ls w = Inr n \<and> ls ! n = w"
proof (induction ls)
  case Nil
  then show ?case by simp
next
  case (Cons l ls)
  show ?case
  proof (cases "l = w")
    case True
    then show ?thesis by auto
  next
    case False
    then obtain n where "n < length ls" "get_loc ls w = Inr n" "ls ! n = w"
      using Cons by auto
    then show ?thesis
      using False by (intro exI [of _ "Suc n"]) simp
  qed
qed

lemma get_loc_nth: "distinct ls \<Longrightarrow> n < length ls \<Longrightarrow> get_loc ls (ls ! n) = Inr n"
proof (induction ls arbitrary: n)
  case Nil
  then show ?case by simp
next
  case (Cons l ls)
  show ?case
  proof (cases n)
    case 0
    then show ?thesis by simp
  next
    case (Suc m)
    then have "ls ! m \<in> set ls" and "get_loc ls (ls ! m) = Inr m"
      using Cons by simp_all
    then show ?thesis
      using Cons.prems(1) Suc by auto
  qed
qed

lemma vec_known:
  assumes "w \<in> set (words_index words)"
  shows "\<exists>n < length words. vec words w = Inr (int n + 1) \<and> fst (words ! n) = w"
proof -
  obtain n where "n < length (words_index words)" "get_loc (words_index words) w = Inr n"
    "words_index words ! n = w"
    using get_loc_in [OF assms] by auto
  then show ?thesis
    using assms by (intro exI [of _ n]) (simp add: vec_def words_index_def)
qed

lemma vec_unknown:
  "w \<notin> set (words_index words) \<Longrightarrow> vec words w =
     (if ''unk'' \<in> set (words_index words) then vec words ''unk'' else Inl KeyError)"
  by (simp add: vec_def get_loc_notin)

lemma vec_nth:
  assumes "is_dict words" and "n < length words"
  shows "vec words (fst (words ! n)) = Inr (int n + 1)"
proof -
  have "get_loc (words_index words) (words_index words ! n) = Inr n"
    using assms unfolding is_dict_def words_index_def by (intro get_loc_nth) simp_all
  then show ?thesis
    using assms(2) by (simp add: vec_def words_index_def)
qed

lemma vec_range:
  assumes "vec words w = Inr n"
  shows "1 \<le> n \<and> n \<le> int (length words)"
proof (cases "w \<in> set (words_index words)")
  case True
  then show ?thesis
    using vec_known [OF True] assms by auto
next
  case False
  have u: "''unk'' \<in> set (words_index words)"
    using assms vec_unknown [OF False] by (cases "''unk'' \<in> set (words_index words)") simp_all
  then have "vec words ''unk'' = Inr n"
    using assms vec_unknown [OF False] by simp
  then show ?thesis
    using vec_known [OF u] by auto
qed

lemma vec_error:
  assumes "vec words w = Inl e"
  shows "e = KeyError \<and> w \<notin> set (words_index words) \<and> ''unk'' \<notin> set (words_index words)"
proof -
  have w: "w \<notin> set (words_index words)"
    using vec_known [of w words] assms by auto
  have u: "''unk'' \<notin> set (words_index words)"
  proof
    assume k: "''unk'' \<in> set (words_index words)"
    then have "vec words w = vec words ''unk''"
      using vec_unknown [OF w] by simp
    then show False
      using vec_known [OF k] assms by auto
  qed
  have "vec words w = Inl KeyError"
    using vec_unknown [OF w] u by simp
  then show ?thesis
    using assms w u by simp
qed

lemma is_dict_a_table: "is_dict (a_table n)"
proof -
  have "inj_on (\<lambda>k. replicate (Suc k) CHR ''a'') (set [0..<n])"
  proof (rule inj_onI)
    fix x y :: nat
    assume "replicate (Suc x) CHR ''a'' = replicate (Suc y) CHR ''a''"
    then have "length (replicate (Suc x) CHR ''a'') = length (replicate (Suc y) CHR ''a'')"
      by (rule arg_cong)
    then show "x = y" by simp
  qed
  then have "distinct (map (\<lambda>k. replicate (Suc k) CHR ''a'') [0..<n])"
    by (simp add: distinct_map)
  moreover have "map fst (a_table n) = map (\<lambda>k. replicate (Suc k) CHR ''a'') [0..<n]"
    by (simp add: a_table_def comp_def)
  ultimately show ?thesis by (simp add: is_dict_def)
qed

lemma vec_a_table: "0 < n \<Longrightarrow> vec (a_table n) (a_token n) = Inr (int n)"
proof -
  assume n: "0 < n"
  have "fst (a_table n ! (n - 1)) = a_token n"
    using n by (simp add: a_table_def a_token_def replicate_Suc [symmetric] del: replicate_Suc)
  moreover have "vec (a_table n) (fst (a_table n ! (n - 1))) = Inr (int (n - 1) + 1)"
    using n by (intro vec_nth is_dict_a_table) (simp add: a_table_def)
  ultimately show ?thesis using n by simp
qed

lemma lower_a_token: "lower (a_token n) = a_token n"
  by (simp add: lower_def a_token_def lower_char_def)

lemma dtype_min_le_0: "dtype_min t \<le> 0"
  by (simp add: dtype_min_def)

subsection \<open>A lookup that fails inside the shard encoder\<close>

lemma ids_row_error:
  assumes "ids_row vec_fn maxlen q = Inl e"
  shows "\<exists>i < min (length q) maxlen. vec_fn (lower (q ! i)) = Inl e"
proof -
  obtain i where "i \<in> set [0..<maxlen]"
    and "(if i < length q then vec_fn (lower (q ! i)) else Inr 0) = Inl e"
    using traverse_Inl [OF assms [unfolded ids_row_def]] by auto
  then show ?thesis
    by (intro exI [of _ i]) (auto split: if_splits)
qed

lemma ids_row_fails:
  assumes "i < length q" and "i < maxlen" and "isl (vec_fn (lower (q ! i)))"
  shows "isl (ids_row vec_fn maxlen q)"
  unfolding ids_row_def using assms by (intro traverse_fails [of i]) simp_all

lemma map_vocab_loop_fail:
  assumes "\<exists>(rid, q) \<in> set items. isl (ids_row vec_fn maxlen q)"
    and "index + length items \<le> length (input_ids st)"
    and "index + length items \<le> length (attention_masks st)"
  shows "\<exists>evs e. map_vocab_loop pos vec_fn maxlen dtype index items st = (evs, Inl e) \<and>
           (\<exists>(rid, q) \<in> set items. ids_row vec_fn maxlen q = Inl e)"
  using assms
proof (induction items arbitrary: index st)
  case Nil
  then show ?case by simp
next
  case (Cons item items)
  obtain rid q where item: "item = (rid, q)" by (cases item)
  show ?case
  proof (cases "ids_row vec_fn maxlen q")
    case (Inl e)
    then show ?thesis by (simp add: item Let_def)
  next
    case (Inr ids)
    then have rest: "\<exists>(rid, q) \<in> set items. isl (ids_row vec_fn maxlen q)"
      using Cons.prems(1) by (auto simp: item)
    let ?st = "st\<lparr>query_mapping := dict_set rid (pos, index) (query_mapping st),
                 input_ids := (input_ids st)[index := map (to_dtype dtype) ids],
                 attention_masks := (attention_masks st)[index := mask_row maxlen q]\<rparr>"
    obtain evs e where
      "map_vocab_loop pos vec_fn maxlen dtype (Suc index) items ?st = (evs, Inl e)"
      and "\<exists>(rid, q) \<in> set items. ids_row vec_fn maxlen q = Inl e"
      using Cons.IH [OF rest, of "Suc index" ?st] Cons.prems(2,3) by auto
    then show ?thesis
      using Cons.prems(2,3) Inr
      by (auto simp: item set_row_def mask_row_stored Let_def)
  qed
qed

lemma map_vocab_fail:
  assumes "(rid, q) \<in> set input" and "i < length q" and "i < maxlen"
    and "isl (vec_fn (lower (q ! i)))"
  shows "\<exists>evs e. map_vocab pos input vec_fn maxlen dtype =
           (FileCreated ''input_ids'' pos # FileCreated ''attention_maps'' pos # evs, Inl e) \<and>
           (\<exists>(rid, q) \<in> set input. \<exists>i < min (length q) maxlen. vec_fn (lower (q ! i)) = Inl e)"
proof -
  have mm: "memmap_new (length input) maxlen =
      Inr (replicate (length input) (replicate maxlen 0))"
    using assms(1,3) by (cases input) (simp_all add: memmap_new_def)
  have "\<exists>(rid, q) \<in> set input. isl (ids_row vec_fn maxlen q)"
    using assms ids_row_fails by fastforce
  then obtain evs e where loop: "map_vocab_loop pos vec_fn maxlen dtype 0 input
      \<lparr>input_ids = replicate (length input) (replicate maxlen 0),
       attention_masks = replicate (length input) (replicate maxlen 0), query_mapping = []\<rparr> =
      (evs, Inl e)" and "\<exists>(rid, q) \<in> set input. ids_row vec_fn maxlen q = Inl e"
    using map_vocab_loop_fail [of input vec_fn maxlen 0
        "\<lparr>input_ids = replicate (length input) (replicate maxlen 0),
          attention_masks = replicate (length input) (replicate maxlen 0), query_mapping = []\<rparr>"
        pos dtype]
    by auto
  then have "\<exists>(rid, q) \<in> set input. \<exists>i < min (length q) maxlen. vec_fn (lower (q ! i)) = Inl e"
    using ids_row_error by fastforce
  then show ?thesis
    by (simp add: map_vocab_def mm loop)
qed

text \<open>
  Claim C6, as the code has it. \<^verbatim>\<open>run\<close> builds the resolver as a lambda over the table and
  checks nothing: building it cannot fail. With the sentinel \<open>unk\<close> in the table the
  resolver is total: every token resolves, a token that is not in the table to the id of
  \<open>unk\<close>. Without the sentinel a token of the table still resolves, the lookup of any
  other token raises KeyError, and it does so inside the shard encoder, when a record with
  such a token is encoded and after the two files of the shard have been created.
\<close>

theorem resolver_sentinel:
  assumes "is_dict words"
  shows "(''unk'' \<in> set (words_index words) \<longrightarrow>
            (\<exists>n. vec words w = Inr n) \<and>
            (w \<notin> set (words_index words) \<longrightarrow> vec words w = vec words ''unk'')) \<and>
         (''unk'' \<notin> set (words_index words) \<longrightarrow>
            (w \<in> set (words_index words) \<longrightarrow> (\<exists>n. vec words w = Inr n)) \<and>
            (w \<notin> set (words_index words) \<longrightarrow> vec words w = Inl KeyError) \<and>
            ((rid, q) \<in> set input \<and> i < length q \<and> i < maxlen \<and>
               lower (q ! i) \<notin> set (words_index words) \<longrightarrow>
             (\<exists>evs. map_vocab pos input (vec words) maxlen dtype =
                (FileCreated ''input_ids'' pos # FileCreated ''attention_maps'' pos # evs,
                 Inl KeyError))))"
proof (intro conjI impI)
  assume u: "''unk'' \<in> set (words_index words)"
  show "\<exists>n. vec words w = Inr n"
    using vec_known [OF u] vec_known [of w words] vec_unknown [of w words] u
    by (cases "w \<in> set (words_index words)") auto
  show "vec words w = vec words ''unk''" if "w \<notin> set (words_index words)"
    using vec_unknown [OF that] u by simp
next
  assume "''unk'' \<notin> set (words_index words)" and "w \<in> set (words_index words)"
  then show "\<exists>n. vec words w = Inr n"
    using vec_known [of w words] by auto
next
  assume "''unk'' \<notin> set (words_index words)" and "w \<notin> set (words_index words)"
  then show "vec words w = Inl KeyError"
    by (simp add: vec_unknown)
next
  assume u: "''unk'' \<notin> set (words_index words)"
    and h: "(rid, q) \<in> set input \<and> i < length q \<and> i < maxlen \<and>
      lower (q ! i) \<notin> set (words_index words)"
  then have "isl (vec words (lower (q ! i)))"
    by (simp add: vec_unknown)
  then have "\<exists>evs e. map_vocab pos input (vec words) maxlen dtype =
      (FileCreated ''input_ids'' pos # FileCreated ''attention_maps'' pos # evs, Inl e) \<and>
      (\<exists>(rid, q) \<in> set input. \<exists>i < min (length q) maxlen. vec words (lower (q ! i)) = Inl e)"
    using h by (intro map_vocab_fail [of rid q input i]) simp_all
  then obtain evs e where r: "map_vocab pos input (vec words) maxlen dtype =
      (FileCreated ''input_ids'' pos # FileCreated ''attention_maps'' pos # evs, Inl e)"
    and x: "\<exists>(rid, q) \<in> set input. \<exists>i < min (length q) maxlen. vec words (lower (q ! i)) = Inl e"
    by blast
  from x obtain w' where "vec words w' = Inl e"
    by blast
  then have "e = KeyError"
    using vec_error by blast
  then show "\<exists>evs. map_vocab pos input (vec words) maxlen dtype =
      (FileCreated ''input_ids'' pos # FileCreated ''attention_maps'' pos # evs, Inl KeyError)"
    using r by simp
qed

theorem resolver_sentinel_witness:
  "vec scenario_table ''cat'' = Inr 2 \<and> vec scenario_table ''dog'' = vec scenario_table ''unk'' \<and>
   vec scenario_table ''dog'' = Inr 4 \<and>
   vec no_unk_table ''cat'' = Inr 2 \<and> vec no_unk_table ''dog'' = Inl KeyError \<and>
   map_vocab 0 [(''r'', [''the'', ''Dog''])] (vec no_unk_table) 3 Int32 =
     ([FileCreated ''input_ids'' 0, FileCreated ''attention_maps'' 0], Inl KeyError)"
proof -
  have d1: "is_dict scenario_table" and d2: "is_dict no_unk_table"
    by (simp_all add: is_dict_def scenario_table_def no_unk_table_def)
  have i1: "words_index scenario_table = [''the'', ''cat'', ''sat'', ''unk'']"
    and i2: "words_index no_unk_table = [''the'', ''cat'']"
    by (simp_all add: words_index_def scenario_table_def no_unk_table_def)
  have l: "lower ''Dog'' = ''dog''"
    by (simp add: lower_def lower_char_def)
  have a: "vec scenario_table ''dog'' = vec scenario_table ''unk''"
    using resolver_sentinel [OF d1, of "''dog''" "''r''" "[]" "[]" 0 0 0 Int32] by (simp add: i1)
  have b: "vec no_unk_table ''dog'' = Inl KeyError"
    using resolver_sentinel [OF d2, of "''dog''" "''r''" "[]" "[]" 0 0 0 Int32] by (simp add: i2)
  have "\<exists>evs. map_vocab 0 [(''r'', [''the'', ''Dog''])] (vec no_unk_table) 3 Int32 =
      (FileCreated ''input_ids'' 0 # FileCreated ''attention_maps'' 0 # evs, Inl KeyError)"
    using resolver_sentinel [OF d2, of "''dog''" "''r''" "[''the'', ''Dog'']"
        "[(''r'', [''the'', ''Dog''])]" 1 3 0 Int32]
    by (simp add: i2 l)
  then obtain evs where c: "map_vocab 0 [(''r'', [''the'', ''Dog''])] (vec no_unk_table) 3 Int32 =
      (FileCreated ''input_ids'' 0 # FileCreated ''attention_maps'' 0 # evs, Inl KeyError)"
    by blast
  have "fst (map_vocab 0 [(''r'', [''the'', ''Dog''])] (vec no_unk_table) 3 Int32) =
      [FileCreated ''input_ids'' 0, FileCreated ''attention_maps'' 0]"
    by (simp add: map_vocab_def memmap_new_def ids_row_def upt_rec l b vec_def i2 Let_def
        set_row_def mask_row_def split: sum.splits)
  with c have "evs = []" by simp
  with a b c show ?thesis
    by (simp add: vec_def i1 i2)
qed

subsection \<open>The pipeline\<close>

lemma traverse_all_Inr: "traverse snd (map (\<lambda>x. (e x, Inr (g x))) xs) = Inr (map g xs)"
  by (induction xs) simp_all

lemma executor_run_tokenize:
  "executor_run split (tokenize nlp) input =
     ([], Inr (fold (\<lambda>d acc. dict_update acc d)
        (map (\<lambda>(pos, part). fold (\<lambda>(rid, query) query_output.
            dict_set rid (nlp query) query_output) part []) (enumerate 0 (split input))) []))"
proof -
  have outs: "map (\<lambda>(pos, part). tokenize nlp pos part) (enumerate 0 (split input)) =
      map (\<lambda>x. ([], Inr (case x of (pos, part) \<Rightarrow> fold (\<lambda>(rid, query) query_output.
            dict_set rid (nlp query) query_output) part []))) (enumerate 0 (split input))"
    by (simp add: tokenize_def case_prod_unfold)
  show ?thesis
    unfolding executor_run_def outs Let_def traverse_all_Inr
    by (simp add: comp_def case_prod_unfold)
qed

lemma run_None:
  "run split_text split_tokens nlp text_input maxlen dtype None =
     ([Dispatched Tokenizing], Inl NotImplementedError)"
  by (simp add: run_def executor_run_tokenize)

lemma scenario_run_value:
  "scenario_run =
     ([Dispatched Tokenizing, Dispatched VocabMapping,
       FileCreated ''input_ids'' 0, FileCreated ''attention_maps'' 0,
       FileCreated ''input_ids'' 1, FileCreated ''attention_maps'' 1, TruncationWarning ''C''],
      Inr \<lparr>inputs = global_index two_shards,
           embedding = [[0, 0], [1, 0], [0, 1], [1, 1], [2, 2]]\<rparr>)"
  by (simp add: scenario_run_def two_shards_def run_def executor_run_def tokenize_def
      map_vocab_def memmap_new_def ids_row_def mask_row_def set_row_def lower_def lower_char_def
      vec_def words_index_def scenario_table_def embedding_matrix_def to_dtype_def upt_rec
      dict_update_def)

lemma embedding_matrix_rows:
  assumes "embedding_matrix words = Inr m"
  shows "words \<noteq> [] \<and> m = replicate (length (snd (hd words))) 0 # map snd words"
  using assms by (cases words) (auto simp: embedding_matrix_def)

lemma run_embedding:
  assumes "run split_text split_tokens nlp text_input maxlen dtype (Some words) = (evs, Inr res)"
  shows "embedding_matrix words = Inr (embedding res)"
  using assms
  by (auto simp: run_def executor_run_tokenize split: prod.splits sum.splits)

lemma embedding_a_table: "0 < n \<Longrightarrow> embedding_matrix (a_table n) = Inr ([0] # map snd (a_table n))"
  by (simp add: embedding_matrix_def a_table_def upt_conv_Cons)

text \<open>
  Claim C6 as the spec states it fails: \<open>no_unk_table\<close> has no sentinel, and the run
  over a text of known tokens builds the resolver, encodes the shard and returns its result.
\<close>

theorem missing_sentinel_counterexample:
  "''unk'' \<notin> set (words_index no_unk_table) \<and>
   run (\<lambda>xs. [xs]) (\<lambda>xs. [xs]) (split_words []) [(''A'', ''the cat'')] 2 Int32
       (Some no_unk_table) =
     ([Dispatched Tokenizing, Dispatched VocabMapping,
       FileCreated ''input_ids'' 0, FileCreated ''attention_maps'' 0],
      Inr \<lparr>inputs = global_index [(0, \<lparr>input_ids = [[1, 2]], attention_masks = [[1, 1]],
                                      query_mapping = [(''A'', (0, 0))]\<rparr>)],
           embedding = [[0, 0], [1, 0], [0, 1]]\<rparr>)"
  by (simp add: run_def executor_run_def tokenize_def
      map_vocab_def memmap_new_def ids_row_def mask_row_def set_row_def lower_def lower_char_def
      vec_def words_index_def no_unk_table_def embedding_matrix_def to_dtype_def upt_rec
      dict_update_def)

text \<open>
  Claim C7, as the code has it. Without a pretrained vocabulary source \<^verbatim>\<open>run\<close> fails with
  NotImplementedError, its failure for a missing configuration, after the tokenization has
  been dispatched and has returned, and before the vocabulary mapping is dispatched: no shard
  file is created.
\<close>

theorem no_pretrained_source:
  "run split_text split_tokens nlp text_input maxlen dtype None =
     ([Dispatched Tokenizing], Inl NotImplementedError)"
  by (rule run_None)

text \<open>
  Claim C7 as the spec states it fails: the failure is not raised before the tokenization
  is dispatched.
\<close>

theorem no_pretrained_source_counterexample:
  "run (\<lambda>xs. [xs]) (\<lambda>xs. [xs]) (split_words []) [(''A'', ''the cat'')] 2 Int32
       (None :: int table option) =
     ([Dispatched Tokenizing], Inl NotImplementedError)"
  by (simp add: run_def executor_run_def tokenize_def)

text \<open>
  Claim C8. When \<^verbatim>\<open>run\<close> returns, row 0 of the embedding matrix is the zero vector of the
  table's row length, the rows \<open>1..N\<close> are the rows of the table in their order (the id
  minus one is the position in the table), and for every token of the table the row at the
  id that the resolver gives the token is the vector of that token.
\<close>

theorem embedding_rows:
  assumes "run split_text split_tokens nlp text_input maxlen dtype (Some words) = (evs, Inr res)"
    and "is_dict words"
  shows "embedding res ! 0 = replicate (length (snd (hd words))) 0 \<and>
         length (embedding res) = Suc (length words) \<and>
         (\<forall>k < length words. embedding res ! Suc k = snd (words ! k)) \<and>
         (\<forall>(w, v) \<in> set words. \<exists>n. vec words w = Inr n \<and> 1 \<le> n \<and> embedding res ! nat n = v)"
proof -
  have m: "embedding res = replicate (length (snd (hd words))) 0 # map snd words"
    using embedding_matrix_rows [OF run_embedding [OF assms(1)]] by simp
  have "\<exists>n. vec words w = Inr n \<and> 1 \<le> n \<and> embedding res ! nat n = v"
    if wv: "(w, v) \<in> set words" for w v
  proof -
    obtain k where k: "k < length words" "words ! k = (w, v)"
      using wv by (metis in_set_conv_nth)
    then have "vec words w = Inr (int k + 1)"
      using vec_nth [OF assms(2), of k] by simp
    moreover have "embedding res ! nat (int k + 1) = v"
      using k by (simp add: m nat_add_distrib)
    ultimately show ?thesis by simp
  qed
  then show ?thesis
    by (auto simp: m)
qed

theorem embedding_rows_witness:
  "embedding (projr (snd scenario_run)) ! 0 = [0, 0] \<and>
   vec scenario_table ''cat'' = Inr 2 \<and>
   embedding (projr (snd scenario_run)) ! 2 = [0, 1]"
proof -
  have d: "is_dict scenario_table"
    by (simp add: is_dict_def scenario_table_def)
  have r: "run (\<lambda>xs. [xs]) (\<lambda>xs. [take 2 xs, drop 2 xs]) (split_words [])
       [(''A'', ''cat sat''), (''B'', ''dog''), (''C'', ''The cat sat down'')] 3 Int32
       (Some scenario_table) = (fst scenario_run, Inr (projr (snd scenario_run)))"
    unfolding scenario_run_def [symmetric] by (simp add: scenario_run_value)
  have v: "vec scenario_table ''cat'' = Inr 2"
    by (simp add: vec_def words_index_def scenario_table_def)
  show ?thesis
    using embedding_rows [OF r d] v
    by (auto simp: scenario_table_def)
qed

subsection \<open>The dtype\<close>

lemma outcome_simps [simp]: "outcome (Inl e) = Some e" "outcome (Inr x) = None"
  by (simp_all add: outcome_def)

lemma map_vocab_loop_dtype:
  assumes "length (input_ids st) = length (input_ids st')"
    and "length (attention_masks st) = length (attention_masks st')"
  shows "fst (map_vocab_loop pos vec_fn maxlen dtype index items st) =
           fst (map_vocab_loop pos vec_fn maxlen dtype' index items st') \<and>
         outcome (snd (map_vocab_loop pos vec_fn maxlen dtype index items st)) =
           outcome (snd (map_vocab_loop pos vec_fn maxlen dtype' index items st'))"
  using assms
proof (induction items arbitrary: index st st')
  case Nil
  then show ?case by simp
next
  case (Cons item items)
  obtain rid q where item: "item = (rid, q)" by (cases item)
  show ?case
  proof (cases "ids_row vec_fn maxlen q")
    case (Inl e)
    then show ?thesis by (simp add: item Let_def)
  next
    case (Inr ids)
    show ?thesis
    proof (cases "index < length (input_ids st) \<and> index < length (attention_masks st)")
      case False
      then show ?thesis
        using Cons.prems Inr by (auto simp: item Let_def set_row_def)
    next
      case True
      let ?s = "\<lambda>t. st\<lparr>query_mapping := dict_set rid (pos, index) (query_mapping st),
                     input_ids := (input_ids st)[index := map (to_dtype t) ids],
                     attention_masks :=
                       (attention_masks st)[index := map (to_dtype t) (mask_row maxlen q)]\<rparr>"
      let ?s' = "\<lambda>t. st'\<lparr>query_mapping := dict_set rid (pos, index) (query_mapping st'),
                     input_ids := (input_ids st')[index := map (to_dtype t) ids],
                     attention_masks :=
                       (attention_masks st')[index := map (to_dtype t) (mask_row maxlen q)]\<rparr>"
      have ih: "fst (map_vocab_loop pos vec_fn maxlen dtype (Suc index) items (?s dtype)) =
           fst (map_vocab_loop pos vec_fn maxlen dtype' (Suc index) items (?s' dtype')) \<and>
         outcome (snd (map_vocab_loop pos vec_fn maxlen dtype (Suc index) items (?s dtype))) =
           outcome (snd (map_vocab_loop pos vec_fn maxlen dtype' (Suc index) items (?s' dtype')))"
        using Cons.prems by (intro Cons.IH) simp_all
      show ?thesis
        using True Cons.prems Inr ih
        by (simp add: item Let_def set_row_def case_prod_unfold)
    qed
  qed
qed

lemma map_vocab_dtype:
  "fst (map_vocab pos input vec_fn maxlen dtype) = fst (map_vocab pos input vec_fn maxlen dtype') \<and>
   outcome (snd (map_vocab pos input vec_fn maxlen dtype)) =
     outcome (snd (map_vocab pos input vec_fn maxlen dtype'))"
proof (cases "memmap_new (length input) maxlen")
  case (Inl e)
  then show ?thesis by (simp add: map_vocab_def)
next
  case (Inr a)
  let ?st = "\<lparr>input_ids = a, attention_masks = a, query_mapping = []\<rparr> :: 'a shard"
  have "fst (map_vocab_loop pos vec_fn maxlen dtype 0 input ?st) =
           fst (map_vocab_loop pos vec_fn maxlen dtype' 0 input ?st) \<and>
         outcome (snd (map_vocab_loop pos vec_fn maxlen dtype 0 input ?st)) =
           outcome (snd (map_vocab_loop pos vec_fn maxlen dtype' 0 input ?st))"
    by (intro map_vocab_loop_dtype) simp_all
  then show ?thesis
    by (simp add: map_vocab_def Inr case_prod_unfold outcome_def split: sum.splits)
qed

lemma traverse_outcome:
  "list_all2 (\<lambda>x y. outcome (snd x) = outcome (snd y)) xs ys \<Longrightarrow>
     outcome (traverse snd xs) = outcome (traverse snd ys)"
  by (induction xs ys rule: list_all2_induct) (auto simp: outcome_def split: sum.splits)

lemma executor_run_same_effect:
  assumes "\<And>pos part. fst (w pos part) = fst (w' pos part) \<and>
      outcome (snd (w pos part)) = outcome (snd (w' pos part))"
  shows "fst (executor_run split w input) = fst (executor_run split w' input) \<and>
         outcome (snd (executor_run split w input)) = outcome (snd (executor_run split w' input))"
proof -
  let ?parts = "enumerate 0 (split input)"
  have ev: "concat (map fst (map (\<lambda>(pos, part). w pos part) ?parts)) =
      concat (map fst (map (\<lambda>(pos, part). w' pos part) ?parts))"
    by (simp add: case_prod_unfold comp_def assms)
  have "list_all2 (\<lambda>x y. outcome (snd x) = outcome (snd y))
      (map (\<lambda>(pos, part). w pos part) ?parts) (map (\<lambda>(pos, part). w' pos part) ?parts)"
    using assms by (simp add: list_all2_map1 list_all2_map2 list_all2_same case_prod_unfold)
  then have "outcome (traverse snd (map (\<lambda>(pos, part). w pos part) ?parts)) =
      outcome (traverse snd (map (\<lambda>(pos, part). w' pos part) ?parts))"
    by (rule traverse_outcome)
  then show ?thesis
    unfolding executor_run_def Let_def using ev
    by (auto simp: outcome_def split: sum.splits)
qed

text \<open>
  Claim C4, as the code has it. The pipeline never compares the dtype with the size of the
  vocabulary: the events of a run (the stages dispatched, the files created, the warnings)
  and its outcome (the exception raised, or none) are the same for every dtype. A dtype too
  narrow for the vocabulary is passed to \<^verbatim>\<open>np.memmap\<close> as it is and the shard is written
  with it.
\<close>

theorem dtype_never_checked:
  "fst (run split_text split_tokens nlp text_input maxlen dtype pretrained_file) =
     fst (run split_text split_tokens nlp text_input maxlen dtype' pretrained_file) \<and>
   outcome (snd (run split_text split_tokens nlp text_input maxlen dtype pretrained_file)) =
     outcome (snd (run split_text split_tokens nlp text_input maxlen dtype' pretrained_file))"
proof (cases pretrained_file)
  case None
  then show ?thesis by (simp add: run_None)
next
  case (Some words)
  obtain tokenized_output where
    t: "executor_run split_text (tokenize nlp) text_input = ([], Inr tokenized_output)"
    using executor_run_tokenize [of split_text nlp text_input] by simp
  let ?w = "\<lambda>t pos input. map_vocab pos input (vec words) maxlen t"
  have "fst (executor_run split_tokens (?w dtype) tokenized_output) =
      fst (executor_run split_tokens (?w dtype') tokenized_output) \<and>
    outcome (snd (executor_run split_tokens (?w dtype) tokenized_output)) =
      outcome (snd (executor_run split_tokens (?w dtype') tokenized_output))"
    by (intro executor_run_same_effect map_vocab_dtype)
  then show ?thesis
    by (cases "executor_run split_tokens (?w dtype) tokenized_output";
        cases "executor_run split_tokens (?w dtype') tokenized_output")
       (auto simp: run_def t Some outcome_def split: sum.splits)
qed

text \<open>
  Claim C4 as the spec states it fails: the table has 128 tokens, \<open>Int8\<close> ends at 127,
  and the run creates the shard files, stores - 128 for the id 128 (the conversion of NumPy
  1.x) and returns.
\<close>

theorem narrow_dtype_pipeline_counterexample:
  "int (length (a_table 128)) = 128 \<and> dtype_max Int8 = 127 \<and>
   run (\<lambda>xs. [xs]) (\<lambda>xs. [xs]) (\<lambda>s. [s]) [(''r'', a_token 128)] 1 Int8 (Some (a_table 128)) =
     ([Dispatched Tokenizing, Dispatched VocabMapping,
       FileCreated ''input_ids'' 0, FileCreated ''attention_maps'' 0],
      Inr \<lparr>inputs = global_index [(0, \<lparr>input_ids = [[- 128]], attention_masks = [[1]],
                                      query_mapping = [(''r'', (0, 0))]\<rparr>)],
           embedding = [0] # map snd (a_table 128)\<rparr>)"
proof -
  have v: "vec (a_table 128) (a_token 128) = Inr 128"
    using vec_a_table [of 128] by simp
  have e: "embedding_matrix (a_table 128) = Inr ([0] # map snd (a_table 128))"
    by (rule embedding_a_table) simp
  have n: "length (a_table 128) = 128"
    by (simp add: a_table_def)
  show ?thesis
    by (simp add: n dtype_max_def run_def executor_run_def tokenize_def
        map_vocab_def memmap_new_def ids_row_def mask_row_def set_row_def lower_a_token v e
        to_dtype_def dict_update_def)
qed

text \<open>
  Claim C10, as the code has it. An id that the resolver returns is at least 1 and at most
  the size of the table (the position plus one). When the dtype can represent the size of
  the table, and the resolver returns for the tokens of the shard, a position of a stored row
  of \<open>input_ids\<close> holds 0 exactly when it is a padding position: 0 never stands for a token.
\<close>

theorem resolver_ids_positive:
  assumes "is_dict words"
  shows "(vec words w = Inr n \<longrightarrow> 1 \<le> n \<and> n \<le> int (length words)) \<and>
         (input \<noteq> [] \<and> 0 < maxlen \<and> int (length words) \<le> dtype_max dtype \<and>
            (\<forall>(rid, tokens) \<in> set input. \<forall>i < min (length tokens) maxlen.
               \<exists>v. vec words (lower (tokens ! i)) = Inr v) \<longrightarrow>
          (\<exists>evs sh. map_vocab pos input (vec words) maxlen dtype = (evs, Inr [(pos, sh)]) \<and>
             (\<forall>row < length input. \<forall>i < maxlen.
                (input_ids sh ! row ! i = 0) = (length (snd (input ! row)) \<le> i))))"
proof (rule conjI; rule impI)
  assume "vec words w = Inr n"
  then show "1 \<le> n \<and> n \<le> int (length words)"
    by (rule vec_range)
next
  assume h: "input \<noteq> [] \<and> 0 < maxlen \<and> int (length words) \<le> dtype_max dtype \<and>
    (\<forall>(rid, tokens) \<in> set input. \<forall>i < min (length tokens) maxlen.
       \<exists>v. vec words (lower (tokens ! i)) = Inr v)"
  then have h1: "input \<noteq> []" and h2: "0 < maxlen"
    and h3: "int (length words) \<le> dtype_max dtype"
    and h4: "\<forall>(rid, tokens) \<in> set input. \<forall>i < min (length tokens) maxlen.
       \<exists>v. vec words (lower (tokens ! i)) = Inr v"
    by blast+
  define sh where "sh =
    \<lparr>input_ids = map (\<lambda>(rid, tokens). map (\<lambda>i. if i < length tokens
         then to_dtype dtype (projr (vec words (lower (tokens ! i)))) else 0) [0..<maxlen]) input,
     attention_masks = map (\<lambda>(rid, tokens). map (\<lambda>i. if i < length tokens then 1 else 0)
         [0..<maxlen]) input,
     query_mapping = dict_update []
         (map (\<lambda>(row, (rid, tokens)). (rid, (pos, row))) (enumerate 0 input))\<rparr>"
  have r: "map_vocab pos input (vec words) maxlen dtype =
     (FileCreated ''input_ids'' pos # FileCreated ''attention_maps'' pos #
        concat (map (\<lambda>(rid, tokens). if maxlen < length tokens then [TruncationWarning rid] else [])
                  input),
      Inr [(pos, sh)])"
    unfolding sh_def by (rule map_vocab_closed [OF h1 h2 h4])
  have cell: "input_ids sh ! row ! i =
      (if i < length (snd (input ! row))
       then to_dtype dtype (projr (vec words (lower (snd (input ! row) ! i)))) else 0)"
    if "row < length input" and "i < maxlen" for row i
    using that by (simp add: sh_def case_prod_unfold)
  have "(input_ids sh ! row ! i = 0) = (length (snd (input ! row)) \<le> i)"
    if row: "row < length input" and i: "i < maxlen" for row i
  proof (cases "i < length (snd (input ! row))")
    case False
    then show ?thesis
      using cell [OF row i] by simp
  next
    case True
    obtain rid tokens where rt: "input ! row = (rid, tokens)"
      by (cases "input ! row")
    have "(rid, tokens) \<in> set input"
      using row rt by (metis nth_mem)
    then have "\<forall>i < min (length tokens) maxlen. \<exists>v. vec words (lower (tokens ! i)) = Inr v"
      using h4 by blast
    then obtain v where v: "vec words (lower (tokens ! i)) = Inr v"
      using True i rt by auto
    have "1 \<le> v" and "v \<le> dtype_max dtype"
      using vec_range [OF v] h3 by simp_all
    then have "to_dtype dtype v = v"
      using dtype_min_le_0 [of dtype] by (intro to_dtype_in_range) simp_all
    then show ?thesis
      using cell [OF row i] True v \<open>1 \<le> v\<close> rt by simp
  qed
  then show "\<exists>evs sh. map_vocab pos input (vec words) maxlen dtype = (evs, Inr [(pos, sh)]) \<and>
      (\<forall>row < length input. \<forall>i < maxlen.
         (input_ids sh ! row ! i = 0) = (length (snd (input ! row)) \<le> i))"
    using r by blast
qed

theorem resolver_ids_positive_witness:
  "vec scenario_table ''dog'' = Inr 4 \<and>
   (\<exists>evs sh. map_vocab 0 [(''r'', [''the'', ''dog''])] (vec scenario_table) 3 Int8 =
        (evs, Inr [(0, sh)]) \<and>
      input_ids sh ! 0 ! 0 \<noteq> 0 \<and> input_ids sh ! 0 ! 1 \<noteq> 0 \<and> input_ids sh ! 0 ! 2 = 0)"
proof -
  have d: "is_dict scenario_table"
    by (simp add: is_dict_def scenario_table_def)
  have v: "vec scenario_table ''the'' = Inr 1" "vec scenario_table ''dog'' = Inr 4"
    by (simp_all add: vec_def words_index_def scenario_table_def)
  have l: "lower ''the'' = ''the''" "lower ''dog'' = ''dog''"
    by (simp_all add: lower_def lower_char_def)
  have h: "\<forall>(rid, tokens) \<in> set [(''r'', [''the'', ''dog''])].
      \<forall>i < min (length tokens) 3. \<exists>v. vec scenario_table (lower (tokens ! i)) = Inr v"
    by (auto simp: v l less_Suc_eq)
  have n: "int (length scenario_table) \<le> dtype_max Int8"
    by (simp add: scenario_table_def dtype_max_def)
  obtain evs sh where r: "map_vocab 0 [(''r'', [''the'', ''dog''])] (vec scenario_table) 3 Int8 =
      (evs, Inr [(0, sh)])"
    and z: "\<forall>row < length [(''r'', [''the'', ''dog''])]. \<forall>i < 3.
      (input_ids sh ! row ! i = 0) = (length (snd ([(''r'', [''the'', ''dog''])] ! row)) \<le> i)"
    using resolver_ids_positive [OF d, of "''dog''" 4 "[(''r'', [''the'', ''dog''])]" 3 Int8 0]
      h n
    by auto
  have "input_ids sh ! 0 ! 0 \<noteq> 0" "input_ids sh ! 0 ! 1 \<noteq> 0" "input_ids sh ! 0 ! 2 = 0"
    using z by simp_all
  with r v show ?thesis by blast
qed

text \<open>
  Claim C10 as the spec states it fails for a narrow dtype: the id of the last token of a
  table of 256 tokens is 256, and an \<open>UInt8\<close> array stores 0 for it (the conversion of NumPy
  1.x), at the position of a token (the mask is 1).
\<close>

theorem wrapped_id_counterexample:
  "vec (a_table 256) (a_token 256) = Inr 256 \<and>
   map_vocab 0 [(''r'', [a_token 256])] (vec (a_table 256)) 1 UInt8 =
     ([FileCreated ''input_ids'' 0, FileCreated ''attention_maps'' 0],
      Inr [(0, \<lparr>input_ids = [[0]], attention_masks = [[1]],
                 query_mapping = [(''r'', (0, 0))]\<rparr>)])"
proof -
  have v: "vec (a_table 256) (a_token 256) = Inr 256"
    using vec_a_table [of 256] by simp
  show ?thesis
    by (simp add: map_vocab_def memmap_new_def ids_row_def mask_row_def set_row_def
        lower_a_token v to_dtype_def)
qed

end
